theory Spec2Isabelle
  imports Main "HOL-Library.AList"
begin

section \<open>Python text primitives\<close>

text \<open>
  A Python \<open>str\<close> is modelled as a HOL \<open>string\<close> whose characters are the code points
  U+0000 .. U+00FF; \<open>bytes\<close> is a list of 8-bit characters. \<open>len\<close> is \<open>length\<close>.
\<close>

type_synonym pystr = string
type_synonym bytes = string

definition DQUOTE :: char where
  "DQUOTE = CHR 0x22"

definition SQUOTE :: char where
  "SQUOTE = CHR 0x27"

definition NEWLINE :: char where
  "NEWLINE = CHR 0x0A"

definition py_isspace :: "char \<Rightarrow> bool" where
  \<comment> \<open>\<open>str.isspace\<close> on one character, for code points below 256.\<close>
  "py_isspace c =
     (let n = (of_char c :: nat)
      in (9 \<le> n \<and> n \<le> 13) \<or> (28 \<le> n \<and> n \<le> 32) \<or> n = 133 \<or> n = 160)"

definition strip :: "pystr \<Rightarrow> pystr" where
  \<comment> \<open>\<open>s.strip()\<close>\<close>
  "strip s = rev (dropWhile py_isspace (rev (dropWhile py_isspace s)))"

definition startswith :: "pystr \<Rightarrow> pystr \<Rightarrow> bool" where
  \<comment> \<open>\<open>s.startswith(p)\<close>\<close>
  "startswith s p = (take (length p) s = p)"

definition endswith :: "pystr \<Rightarrow> pystr \<Rightarrow> bool" where
  \<comment> \<open>\<open>s.endswith(p)\<close>\<close>
  "endswith s p = (length p \<le> length s \<and> drop (length s - length p) s = p)"

definition py_lower_char :: "char \<Rightarrow> char" where
  \<comment> \<open>\<open>str.lower\<close> on one character, for code points below 256.\<close>
  "py_lower_char c =
     (let n = (of_char c :: nat)
      in if (65 \<le> n \<and> n \<le> 90) \<or> (192 \<le> n \<and> n \<le> 222 \<and> n \<noteq> 215)
         then char_of (n + 32) else c)"

definition lower :: "pystr \<Rightarrow> pystr" where
  \<comment> \<open>\<open>s.lower()\<close>\<close>
  "lower s = map py_lower_char s"

fun contains :: "pystr \<Rightarrow> pystr \<Rightarrow> bool" where
  \<comment> \<open>\<open>sub in s\<close> (substring test)\<close>
  "contains [] sub = (sub = [])"
| "contains (c # cs) sub = (startswith (c # cs) sub \<or> contains cs sub)"

definition split_once :: "char \<Rightarrow> pystr \<Rightarrow> pystr \<times> pystr" where
  \<comment> \<open>\<open>s.split(sep, 1)\<close> for a string that contains \<open>sep\<close>: the text before the first
      separator and the text after it.\<close>
  "split_once sep s = (takeWhile (\<lambda>c. c \<noteq> sep) s, tl (dropWhile (\<lambda>c. c \<noteq> sep) s))"

definition slice_1_m1 :: "pystr \<Rightarrow> pystr" where
  \<comment> \<open>\<open>s[1:-1]\<close>\<close>
  "slice_1_m1 s = butlast (tl s)"

section \<open>Legacy tokens in shell configuration files\<close>

definition SENTINEL :: pystr where
  "SENTINEL = ''# Added by CDP Runbooker''"

definition EXPORT_PREFIX :: pystr where
  "EXPORT_PREFIX = ''export QUIP_API_TOKEN=''"

definition extract_token_from_line :: "pystr \<Rightarrow> pystr option" where
  \<comment> \<open>\<open>SecureTokenManager._extract_token_from_line\<close>; none of its string operations
      raises, so the \<open>try\<close> has no other exit.\<close>
  "extract_token_from_line line =
     (if CHR ''='' \<notin> set line then None
      else
        let token_part = strip (snd (split_once CHR ''='' line));
            token =
              (if startswith token_part [DQUOTE] \<and> endswith token_part [DQUOTE]
               then slice_1_m1 token_part
               else if startswith token_part [SQUOTE] \<and> endswith token_part [SQUOTE]
               then slice_1_m1 token_part
               else token_part)
        in if token \<noteq> [] \<and> length token > 30 then Some token else None)"

fun scan_lines :: "pystr list \<Rightarrow> pystr option" where
  \<comment> \<open>The \<open>for i, line in enumerate(lines)\<close> loop of \<open>_detect_legacy_tokens\<close> on one
      file: the token of the first sentinel line whose next line yields one (\<open>break\<close>).\<close>
  "scan_lines [] = None"
| "scan_lines (line # rest) =
     (if strip line = SENTINEL then
        (case rest of
           [] \<Rightarrow> scan_lines rest
         | nxt # _ \<Rightarrow>
             (let next_line = strip nxt
              in if startswith next_line EXPORT_PREFIX then
                   (case extract_token_from_line next_line of
                      Some token \<Rightarrow> Some token
                    | None \<Rightarrow> scan_lines rest)
                 else scan_lines rest))
      else scan_lines rest)"

function cleanup_loop :: "pystr list \<Rightarrow> nat \<Rightarrow> pystr list \<Rightarrow> pystr list" where
  \<comment> \<open>The \<open>while i < len(lines)\<close> loop of \<open>_cleanup_legacy_tokens\<close>; the result is
      \<open>new_lines\<close>.\<close>
  "cleanup_loop lines i new_lines =
     (if i < length lines then
        (if strip (lines ! i) = SENTINEL then
           (if i + 1 < length lines \<and> startswith (strip (lines ! (i + 1))) EXPORT_PREFIX
            then cleanup_loop lines (i + 1 + 1) new_lines
            else cleanup_loop lines (i + 1) new_lines)
         else cleanup_loop lines (i + 1) (new_lines @ [lines ! i]))
      else new_lines)"
  by pat_completeness auto
termination
  by (relation "measure (\<lambda>(lines, i, new_lines). length lines - i)") auto

declare cleanup_loop.simps [simp del]

definition rewritten_lines :: "pystr list \<Rightarrow> pystr list" where
  \<comment> \<open>What \<open>_cleanup_legacy_tokens\<close> writes back to a file it read as \<open>lines\<close>.\<close>
  "rewritten_lines lines = cleanup_loop lines 0 []"

fun kept_lines :: "pystr list \<Rightarrow> pystr list" where
  \<comment> \<open>The same rewrite as a recursion on the list of lines: a sentinel line is dropped,
      and with it the line after it when that line starts with the export prefix.\<close>
  "kept_lines [] = []"
| "kept_lines (l # rest) =
     (if strip l = SENTINEL then
        (case rest of
           [] \<Rightarrow> []
         | n # rest' \<Rightarrow>
             (if startswith (strip n) EXPORT_PREFIX then kept_lines rest' else kept_lines rest))
      else l # kept_lines rest)"

definition kept_after_cleanup :: "pystr list \<Rightarrow> bool" where
  \<comment> \<open>No line of the file is a sentinel line (after \<open>strip\<close>).\<close>
  "kept_after_cleanup ls = list_all (\<lambda>l. strip l \<noteq> SENTINEL) ls"

section \<open>Standard-library primitives: UTF-8 and URL-safe base64\<close>

fun utf8_encode :: "pystr \<Rightarrow> bytes" where
  \<comment> \<open>\<open>s.encode()\<close>: one byte below U+0080, two bytes from U+0080 to U+00FF.\<close>
  "utf8_encode [] = []"
| "utf8_encode (c # cs) =
     (let n = (of_char c :: nat)
      in if n < 128 then c # utf8_encode cs
         else char_of (192 + n div 64) # char_of (128 + n mod 64) # utf8_encode cs)"

fun utf8_decode :: "bytes \<Rightarrow> pystr option" where
  \<comment> \<open>\<open>b.decode()\<close>; \<open>None\<close> is \<open>UnicodeDecodeError\<close>. The lead bytes 0xC2 and 0xC3 carry
      the code points U+0080 .. U+00FF; a sequence for a code point above U+00FF has no
      value in this model of \<open>str\<close> and is reported like an ill-formed one.\<close>
  "utf8_decode [] = Some []"
| "utf8_decode [b] = (if (of_char b :: nat) < 128 then Some [b] else None)"
| "utf8_decode (b # b2 # bs) =
     (let n = (of_char b :: nat); m = (of_char b2 :: nat)
      in if n < 128 then map_option ((#) b) (utf8_decode (b2 # bs))
         else if (n = 194 \<or> n = 195) \<and> 128 \<le> m \<and> m < 192
         then map_option ((#) (char_of ((n - 192) * 64 + (m - 128)))) (utf8_decode bs)
         else None)"

definition b64_alphabet :: string where
  \<comment> \<open>The URL-safe alphabet: \<open>-\<close> and \<open>_\<close> stand for 62 and 63.\<close>
  "b64_alphabet = ''ABCDEFGHIJKLMNOPQRSTUVWXYZabcdefghijklmnopqrstuvwxyz0123456789-_''"

definition b2a :: "nat \<Rightarrow> char" where
  "b2a n = b64_alphabet ! n"

fun index_in :: "'a list \<Rightarrow> 'a \<Rightarrow> nat option" where
  "index_in [] x = None"
| "index_in (y # ys) x = (if x = y then Some 0 else map_option Suc (index_in ys x))"

definition a2b :: "char \<Rightarrow> nat option" where
  \<comment> \<open>The decoding table after \<open>urlsafe_b64decode\<close> has translated \<open>-\<close> to \<open>+\<close> and \<open>_\<close> to
      \<open>/\<close>: both spellings of 62 and 63 are data characters.\<close>
  "a2b c = (if c = CHR ''+'' then Some 62 else if c = CHR ''/'' then Some 63
            else index_in b64_alphabet c)"

fun urlsafe_b64encode :: "bytes \<Rightarrow> bytes" where
  \<comment> \<open>\<open>base64.urlsafe_b64encode\<close>\<close>
  "urlsafe_b64encode [] = []"
| "urlsafe_b64encode [a] =
     (let x = (of_char a :: nat)
      in [b2a (x div 4), b2a (x mod 4 * 16), CHR ''='', CHR ''=''])"
| "urlsafe_b64encode [a, b] =
     (let x = (of_char a :: nat); y = (of_char b :: nat)
      in [b2a (x div 4), b2a (x mod 4 * 16 + y div 16), b2a (y mod 16 * 4), CHR ''=''])"
| "urlsafe_b64encode (a # b # c # rest) =
     (let x = (of_char a :: nat); y = (of_char b :: nat); z = (of_char c :: nat)
      in b2a (x div 4) # b2a (x mod 4 * 16 + y div 16) # b2a (y mod 16 * 4 + z div 64)
           # b2a (z mod 64) # urlsafe_b64encode rest)"

fun a2b_base64 :: "nat \<Rightarrow> nat \<Rightarrow> nat \<Rightarrow> bytes \<Rightarrow> bytes option" where
  \<comment> \<open>\<open>binascii.a2b_base64\<close> in its default, non-strict mode, the decoder behind
      \<open>base64.urlsafe_b64decode\<close>; the state is \<open>quad_pos\<close>, \<open>leftchar\<close> and \<open>pads\<close>, and
      \<open>None\<close> is \<open>binascii.Error\<close>. Characters outside the alphabet are skipped, a
      complete pad sequence ends the decoding.\<close>
  "a2b_base64 quad_pos leftchar pads [] = (if quad_pos = 0 then Some [] else None)"
| "a2b_base64 quad_pos leftchar pads (c # cs) =
     (if c = CHR ''='' then
        (if 2 \<le> quad_pos \<and> 4 \<le> quad_pos + (pads + 1) then Some []
         else a2b_base64 quad_pos leftchar (if 2 \<le> quad_pos then pads + 1 else pads) cs)
      else
        (case a2b c of
           None \<Rightarrow> a2b_base64 quad_pos leftchar pads cs
         | Some this_ch \<Rightarrow>
             (if quad_pos = 0 then a2b_base64 1 this_ch 0 cs
              else if quad_pos = 1 then
                map_option ((#) (char_of (leftchar * 4 + this_ch div 16)))
                  (a2b_base64 2 (this_ch mod 16) 0 cs)
              else if quad_pos = 2 then
                map_option ((#) (char_of (leftchar * 16 + this_ch div 4)))
                  (a2b_base64 3 (this_ch mod 4) 0 cs)
              else
                map_option ((#) (char_of (leftchar * 64 + this_ch)))
                  (a2b_base64 0 0 0 cs))))"

definition urlsafe_b64decode :: "bytes \<Rightarrow> bytes option" where
  \<comment> \<open>\<open>base64.urlsafe_b64decode\<close>\<close>
  "urlsafe_b64decode s = a2b_base64 0 0 0 s"

section \<open>The machine, the module and the outside world\<close>

datatype json = JNull | JBool bool | JNum int | JStr pystr | JArr "json list"
  | JObj "(pystr \<times> json) list"

type_synonym pydict = "(pystr \<times> json) list"

datatype file_content = Garbled | Document json
  \<comment> \<open>What \<open>json.load\<close> makes of a file: \<open>Garbled\<close> raises \<open>JSONDecodeError\<close>.\<close>

datatype failure = ValueError | EOFError | SystemExit | NameError

datatype api_reply = Raises pystr | Returns "pydict option"
  \<comment> \<open>\<open>QuipClient.get_authenticated_user()\<close>: an exception with its message, or the
      payload (\<open>None\<close> for a payload that is not an object).\<close>

datatype direct_reply = DirectRaises pystr | DirectStatus nat "pydict option"
  \<comment> \<open>\<open>requests.get(url, ...)\<close> of diagnose mode: an exception, or the status code and
      what \<open>response.json()\<close> gives.\<close>

datatype event = ApiCall pystr | DirectCall pystr | Sleep nat

datatype stdin_event = Line pystr | CtrlC
  \<comment> \<open>What \<open>input()\<close> meets next: a line, or \<open>KeyboardInterrupt\<close>; the end of the list is
      the end of the input (\<open>EOFError\<close>).\<close>

record crypto_lib =
  sha256_digest :: "bytes \<Rightarrow> bytes"
  pbkdf2_derive :: "nat \<Rightarrow> bytes \<Rightarrow> nat \<Rightarrow> bytes \<Rightarrow> bytes"
  fernet_encrypt :: "bytes \<Rightarrow> bytes \<Rightarrow> bytes \<Rightarrow> bytes"
  fernet_decrypt :: "bytes \<Rightarrow> bytes \<Rightarrow> bytes option"

text \<open>
  \<open>crypto_lib\<close> stands for \<open>hashlib\<close> and the \<open>cryptography\<close> package, which are not part
  of the repository: \<open>sha256_digest data\<close>, \<open>pbkdf2_derive length salt iterations
  key_material\<close>, \<open>fernet_encrypt key nonce data\<close> (the nonce is the IV and time stamp
  Fernet draws) and \<open>fernet_decrypt key data\<close>, where \<open>None\<close> is \<open>InvalidToken\<close>.
\<close>

record world =
  CRYPTO_AVAILABLE :: bool
  base64_bound :: bool
  crypto :: crypto_lib
  fernet_nonce :: bytes
  node :: pystr
  user :: pystr
  home :: pystr
  SHELL :: pystr
  now :: pystr
  config_file :: "file_content option"
  config_writable :: bool
  shell_files :: "pystr \<rightharpoonup> pystr list"
  shell_writable :: "pystr \<Rightarrow> bool"
  dns_ok :: bool
  https_ok :: bool
  client_has_request :: bool
  api :: "nat \<Rightarrow> pystr \<Rightarrow> api_reply"
  direct_api :: "nat \<Rightarrow> pystr \<Rightarrow> direct_reply"
  events :: "event list"

text \<open>
  The \<open>world\<close> holds what the methods of \<open>SecureTokenManager\<close> read and change: the two
  module-level names the \<open>try\<close> at the head of the module binds, the host identity
  (\<open>platform.node()\<close>, \<open>getpass.getuser()\<close>, \<open>Path.home()\<close>, \<open>$SHELL\<close>), the clock, the
  encrypted \<open>config.json\<close> (\<open>None\<close> when the file does not exist) and whether it can be
  written, the shell configuration files by path (the lines as \<open>readlines()\<close> gives them
  in text mode, line ends already translated; \<open>None\<close> for a file that cannot be read) and
  whether \<open>open(path, 'w')\<close> succeeds on them, the
  network (whether the name resolves and the HTTPS probe answers, and the reply to the
  request made when \<open>n\<close> events have happened), and the trace of requests and sleeps.
\<close>

definition import_module :: "bool \<Rightarrow> world \<Rightarrow> world" where
  \<comment> \<open>The module's first \<open>try\<close> block: \<open>import base64\<close> is its fourth statement, after the
      three imports from \<open>cryptography\<close>, so an \<open>ImportError\<close> of the package leaves
      \<open>base64\<close> unbound and sets \<open>CRYPTO_AVAILABLE = False\<close>.\<close>
  "import_module cryptography_installed w =
     w\<lparr>CRYPTO_AVAILABLE := cryptography_installed, base64_bound := cryptography_installed\<rparr>"

section \<open>Key derivation, encryption and decryption\<close>

definition machine_identifier :: "world \<Rightarrow> pystr" where
  "machine_identifier w =
     (let machine_id = (if node w = [] then ''unknown-machine'' else node w);
          user_id = (if user w = [] then ''unknown-user'' else user w);
          home_path = home w
      in machine_id @ '':'' @ user_id @ '':'' @ home_path @ '':cdp-runbooker-v1'')"

definition generate_encryption_key :: "world \<Rightarrow> failure + bytes" where
  \<comment> \<open>\<open>SecureTokenManager._generate_encryption_key\<close>; every use of \<open>base64\<close> raises
      \<open>NameError\<close> when the name is unbound.\<close>
  "generate_encryption_key w =
     (let identifier = machine_identifier w;
          salt = take 16 (sha256_digest (crypto w) (utf8_encode identifier))
      in if CRYPTO_AVAILABLE w then
           (if base64_bound w
            then Inr (urlsafe_b64encode
                        (pbkdf2_derive (crypto w) 32 salt 100000 (utf8_encode identifier)))
            else Inl NameError)
         else
           (if base64_bound w
            then Inr (urlsafe_b64encode (sha256_digest (crypto w) (utf8_encode identifier)))
            else Inl NameError))"

definition encrypt_token :: "pystr \<Rightarrow> world \<Rightarrow> failure + pystr" where
  \<comment> \<open>\<open>SecureTokenManager._encrypt_token\<close>; the final \<open>.decode()\<close> of base64 text cannot
      fail, \<open>ValueError\<close> stands for the \<open>UnicodeDecodeError\<close> it would raise.\<close>
  "encrypt_token token w =
     (if CRYPTO_AVAILABLE w then
        (case generate_encryption_key w of
           Inl e \<Rightarrow> Inl e
         | Inr key \<Rightarrow>
             (let encrypted = fernet_encrypt (crypto w) key (fernet_nonce w) (utf8_encode token)
              in if base64_bound w
                 then (case utf8_decode (urlsafe_b64encode encrypted) of
                         Some text \<Rightarrow> Inr text | None \<Rightarrow> Inl ValueError)
                 else Inl NameError))
      else
        (if base64_bound w
         then (case utf8_decode (urlsafe_b64encode (utf8_encode token)) of
                 Some text \<Rightarrow> Inr text | None \<Rightarrow> Inl ValueError)
         else Inl NameError))"

definition decrypt_token :: "pystr \<Rightarrow> world \<Rightarrow> pystr option" where
  \<comment> \<open>\<open>SecureTokenManager._decrypt_token\<close>: every exception of the body (\<open>NameError\<close>,
      \<open>binascii.Error\<close>, \<open>InvalidToken\<close>, \<open>UnicodeDecodeError\<close>) ends in \<open>return None\<close>.\<close>
  "decrypt_token encrypted_token w =
     (if CRYPTO_AVAILABLE w then
        (case generate_encryption_key w of
           Inl e \<Rightarrow> None
         | Inr key \<Rightarrow>
             (if base64_bound w then
                (case urlsafe_b64decode (utf8_encode encrypted_token) of
                   None \<Rightarrow> None
                 | Some encrypted_bytes \<Rightarrow>
                     (case fernet_decrypt (crypto w) key encrypted_bytes of
                        None \<Rightarrow> None
                      | Some decrypted \<Rightarrow> utf8_decode decrypted))
              else None))
      else
        (if base64_bound w then
           (case urlsafe_b64decode (utf8_encode encrypted_token) of
              None \<Rightarrow> None
            | Some decoded \<Rightarrow> utf8_decode decoded)
         else None))"

definition encrypt_then_decrypt :: "pystr \<Rightarrow> world \<Rightarrow> world \<Rightarrow> failure + pystr option" where
  \<comment> \<open>\<open>decrypt(encrypt(t, k1), k2)\<close>: the token is encrypted in the first world and the
      ciphertext decrypted in the second; an exception of \<open>_encrypt_token\<close> reaches the
      caller.\<close>
  "encrypt_then_decrypt token w1 w2 =
     (case encrypt_token token w1 of
        Inl e \<Rightarrow> Inl e
      | Inr encrypted \<Rightarrow> Inr (decrypt_token encrypted w2))"

definition fernet_round_trip :: "crypto_lib \<Rightarrow> bool" where
  \<comment> \<open>Fernet's contract: what was encrypted under a key decrypts under it.\<close>
  "fernet_round_trip lib =
     (\<forall>key nonce data. fernet_decrypt lib key (fernet_encrypt lib key nonce data) = Some data)"

definition fernet_key_bound :: "crypto_lib \<Rightarrow> bool" where
  \<comment> \<open>Fernet's contract: a token made under one key is rejected under every other key.
      \<open>Fernet(key)\<close> reads its key through \<open>base64.urlsafe_b64decode\<close>, so two keys are
      different keys when they decode to different octets.\<close>
  "fernet_key_bound lib =
     (\<forall>key key' nonce data. urlsafe_b64decode key \<noteq> urlsafe_b64decode key' \<longrightarrow>
        fernet_decrypt lib key' (fernet_encrypt lib key nonce data) = None)"

section \<open>Remote validation\<close>

definition TRANSIENT_KEYWORDS :: "pystr list" where
  "TRANSIENT_KEYWORDS =
     [''timeout'', ''connection'', ''network'', ''temporary'', ''service unavailable'',
      ''502'', ''503'', ''504'']"

definition AUTH_KEYWORDS :: "pystr list" where
  "AUTH_KEYWORDS = [''unauthorized'', ''401'', ''forbidden'', ''403'', ''invalid'', ''expired'']"

definition is_transient :: "pystr \<Rightarrow> bool" where
  \<comment> \<open>\<open>any(keyword in error_str for keyword in [...])\<close>, the retry branch\<close>
  "is_transient error_str = list_ex (contains error_str) TRANSIENT_KEYWORDS"

definition is_auth_error :: "pystr \<Rightarrow> bool" where
  "is_auth_error error_str = list_ex (contains error_str) AUTH_KEYWORDS"

definition has_id :: "pydict option \<Rightarrow> bool" where
  \<comment> \<open>\<open>user_info and 'id' in user_info\<close>, for a payload that is a JSON object or \<open>None\<close>\<close>
  "has_id payload =
     (case payload of None \<Rightarrow> False | Some d \<Rightarrow> d \<noteq> [] \<and> map_of d ''id'' \<noteq> None)"

datatype attempt_result = Success pydict | Rejected | Raised pystr

definition validate_attempt :: "pystr \<Rightarrow> bool \<Rightarrow> world \<Rightarrow> attempt_result \<times> world" where
  \<comment> \<open>The \<open>try\<close> body of one pass of the retry loop: in diagnose mode, when the client has
      a \<open>request\<close> attribute, the direct request, whose own failure is only printed; then
      \<open>get_authenticated_user()\<close>.\<close>
  "validate_attempt token diagnose_mode w =
     (let (direct, w1) =
            (if diagnose_mode \<and> client_has_request w then
               (let w' = w\<lparr>events := events w @ [DirectCall token]\<rparr>
                in case direct_api w (length (events w)) token of
                     DirectRaises e \<Rightarrow> (None, w')
                   | DirectStatus status payload \<Rightarrow>
                       (if status = 200 \<and> has_id payload then (payload, w') else (None, w')))
             else (None, w))
      in case direct of
           Some user_info \<Rightarrow> (Success user_info, w1)
         | None \<Rightarrow>
             (let w2 = w1\<lparr>events := events w1 @ [ApiCall token]\<rparr>
              in case api w1 (length (events w1)) token of
                   Raises e \<Rightarrow> (Raised e, w2)
                 | Returns payload \<Rightarrow>
                     (if has_id payload
                      then (case payload of Some user_info \<Rightarrow> (Success user_info, w2)
                                          | None \<Rightarrow> (Rejected, w2))
                      else (Rejected, w2))))"

function validate_loop ::
  "pystr \<Rightarrow> nat \<Rightarrow> bool \<Rightarrow> nat \<Rightarrow> world \<Rightarrow> pydict option \<times> world" where
  \<comment> \<open>\<open>for attempt in range(max_retries)\<close> of \<open>_validate_token\<close>, from pass \<open>attempt\<close> on.\<close>
  "validate_loop token max_retries diagnose_mode attempt w =
     (if attempt < max_retries then
        (case validate_attempt token diagnose_mode w of
           (Success user_info, w1) \<Rightarrow> (Some user_info, w1)
         | (Rejected, w1) \<Rightarrow> (None, w1)
         | (Raised e, w1) \<Rightarrow>
             (let error_str = lower e
              in if is_transient error_str then
                   (if attempt < max_retries - 1 then
                      (let wait_time = (attempt + 1) * 2
                       in validate_loop token max_retries diagnose_mode (attempt + 1)
                            (w1\<lparr>events := events w1 @ [Sleep wait_time]\<rparr>))
                    else (None, w1))
                 else if is_auth_error error_str then (None, w1)
                 else (None, w1)))
      else (None, w))"
  by pat_completeness auto
termination
  by (relation "measure (\<lambda>(token, max_retries, diagnose_mode, attempt, w). max_retries - attempt)")
    auto

declare validate_loop.simps [simp del]

definition validate_token :: "pystr \<Rightarrow> nat \<Rightarrow> bool \<Rightarrow> world \<Rightarrow> pydict option \<times> world" where
  \<comment> \<open>\<open>SecureTokenManager._validate_token(token, max_retries, diagnose_mode)\<close>\<close>
  "validate_token token max_retries diagnose_mode w =
     (if token = [] \<or> length token < 30 then (None, w)
      else validate_loop token max_retries diagnose_mode 0 w)"

definition retry_trace :: "pystr \<Rightarrow> nat \<Rightarrow> nat \<Rightarrow> event list" where
  \<comment> \<open>The requests and sleeps of the passes after pass \<open>attempt\<close> when every pass fails
      with a transient error: a request and a sleep of \<open>2 * k\<close> seconds for each pass
      \<open>k\<close> (counted from 1) but the last, and the last request.\<close>
  "retry_trace token attempt max_retries =
     concat (map (\<lambda>k. [ApiCall token, Sleep (2 * k)]) [attempt + 1..<max_retries])
       @ (if attempt < max_retries then [ApiCall token] else [])"

section \<open>The encrypted store\<close>

definition CONFIG_VERSION :: pystr where
  "CONFIG_VERSION = ''1.0''"

definition dict_get :: "pydict \<Rightarrow> pystr \<Rightarrow> json \<Rightarrow> json" where
  \<comment> \<open>\<open>d.get(key, default)\<close>\<close>
  "dict_get d k dflt = (case map_of d k of None \<Rightarrow> dflt | Some v \<Rightarrow> v)"

definition store_token_securely :: "pystr \<Rightarrow> world \<Rightarrow> bool \<times> world" where
  \<comment> \<open>\<open>SecureTokenManager.store_token_securely\<close>: an exception of \<open>_encrypt_token\<close> or of
      \<open>open(..., 'w')\<close> is caught and gives \<open>False\<close>.\<close>
  "store_token_securely token w =
     (case validate_token token 3 False w of
        (None, w1) \<Rightarrow> (False, w1)
      | (Some user_info, w1) \<Rightarrow>
          (case encrypt_token token w1 of
             Inl e \<Rightarrow> (False, w1)
           | Inr encrypted_token \<Rightarrow>
               (let config_data =
                      [(''version'', JStr CONFIG_VERSION),
                       (''encrypted_token'', JStr encrypted_token),
                       (''created_at'', JStr (now w1)),
                       (''last_used'', JStr (now w1)),
                       (''user_name'', dict_get user_info ''name'' (JStr ''Unknown''))]
                in if config_writable w1
                   then (True, w1\<lparr>config_file := Some (Document (JObj config_data))\<rparr>)
                   else (False, w1))))"

definition read_record :: "world \<Rightarrow> (pydict \<times> pystr) option" where
  \<comment> \<open>The \<open>try\<close> body of \<open>_load_secure_token\<close> up to the decryption: the parsed document
      and its ciphertext. \<open>None\<close> where the method returns \<open>None\<close> (no file, another
      version, no ciphertext) or catches an exception (\<open>json.load\<close> on a garbled file,
      \<open>.get\<close> on a document that is not an object); a ciphertext that is not a string
      makes \<open>_decrypt_token\<close> return \<open>None\<close>.\<close>
  "read_record w =
     (case config_file w of
        None \<Rightarrow> None
      | Some Garbled \<Rightarrow> None
      | Some (Document (JObj config_data)) \<Rightarrow>
          (if map_of config_data ''version'' \<noteq> Some (JStr CONFIG_VERSION) then None
           else
             (case map_of config_data ''encrypted_token'' of
                Some (JStr encrypted_token) \<Rightarrow>
                  (if encrypted_token = [] then None else Some (config_data, encrypted_token))
              | _ \<Rightarrow> None))
      | Some (Document _) \<Rightarrow> None)"

definition load_secure_token :: "world \<Rightarrow> pystr option \<times> world" where
  \<comment> \<open>\<open>SecureTokenManager._load_secure_token\<close>: a token that decrypts is returned after
      \<open>last_used\<close> has been written; when the file cannot be written, \<open>open(..., 'w')\<close>
      raises and the method returns \<open>None\<close>.\<close>
  "load_secure_token w =
     (case read_record w of
        None \<Rightarrow> (None, w)
      | Some (config_data, encrypted_token) \<Rightarrow>
          (case decrypt_token encrypted_token w of
             None \<Rightarrow> (None, w)
           | Some token \<Rightarrow>
               (if token \<noteq> [] then
                  (if config_writable w then
                     (Some token,
                      w\<lparr>config_file := Some (Document (JObj
                           (AList.update ''last_used'' (JStr (now w)) config_data)))\<rparr>)
                   else (None, w))
                else (Some token, w))))"



section \<open>Detection and cleanup of legacy tokens\<close>

definition path_join :: "pystr \<Rightarrow> pystr \<Rightarrow> pystr" where
  \<comment> \<open>\<open>os.path.join(a, b)\<close> (POSIX)\<close>
  "path_join a b =
     (if startswith b ''/'' then b
      else if a = [] \<or> endswith a ''/'' then a @ b
      else a @ ''/'' @ b)"

definition basename :: "pystr \<Rightarrow> pystr" where
  \<comment> \<open>\<open>os.path.basename(p)\<close> (POSIX): what follows the last slash\<close>
  "basename p = rev (takeWhile (\<lambda>c. c \<noteq> CHR ''/'') (rev p))"

definition get_shell_config_files :: "world \<Rightarrow> pystr list" where
  \<comment> \<open>\<open>SecureTokenManager._get_shell_config_files\<close>\<close>
  "get_shell_config_files w =
     (if contains (SHELL w) ''zsh''
      then [path_join (home w) ''.zshrc'', path_join (home w) ''.zprofile'']
      else if contains (SHELL w) ''bash''
      then [path_join (home w) ''.bashrc'', path_join (home w) ''.bash_profile'']
      else [path_join (home w) ''.zshrc'', path_join (home w) ''.bashrc'',
            path_join (home w) ''.bash_profile'', path_join (home w) ''.zprofile''])"

fun detect_in_files :: "world \<Rightarrow> pystr list \<Rightarrow> (pystr \<times> pystr) list" where
  \<comment> \<open>\<open>for config_file in config_files\<close> of \<open>_detect_legacy_tokens\<close>; \<open>path\<close> is the
      loop variable \<open>config_file\<close>\<close>
  "detect_in_files w [] = []"
| "detect_in_files w (path # rest) =
     (case shell_files w path of
        None \<Rightarrow> detect_in_files w rest
      | Some lines \<Rightarrow>
          (case scan_lines lines of
             None \<Rightarrow> detect_in_files w rest
           | Some token \<Rightarrow> (path, token) # detect_in_files w rest))"

definition detect_legacy_tokens :: "world \<Rightarrow> (pystr \<times> pystr) list" where
  \<comment> \<open>\<open>SecureTokenManager._detect_legacy_tokens\<close>\<close>
  "detect_legacy_tokens w = detect_in_files w (get_shell_config_files w)"

fun cleanup_legacy_tokens :: "(pystr \<times> pystr) list \<Rightarrow> world \<Rightarrow> pystr list \<times> world" where
  \<comment> \<open>\<open>SecureTokenManager._cleanup_legacy_tokens\<close>: a file that cannot be read, or cannot
      be opened for writing, is skipped and left as it is (\<open>except Exception: continue\<close>);
      it is not in the list returned.\<close>
  "cleanup_legacy_tokens [] w = ([], w)"
| "cleanup_legacy_tokens ((path, token) # rest) w =
     (case shell_files w path of
        None \<Rightarrow> cleanup_legacy_tokens rest w
      | Some lines \<Rightarrow>
          if \<not> shell_writable w path then cleanup_legacy_tokens rest w
          else
            (let w1 = w\<lparr>shell_files := (shell_files w)(path \<mapsto> rewritten_lines lines)\<rparr>;
                 (cleaned_files, w2) = cleanup_legacy_tokens rest w1
             in (basename path # cleaned_files, w2)))"

section \<open>Prompts\<close>

fun get_user_input ::
  "bool \<Rightarrow> stdin_event list \<Rightarrow> (failure + pystr) \<times> stdin_event list" where
  \<comment> \<open>\<open>MessageHandler.get_user_input(prompt, required)\<close>: \<open>KeyboardInterrupt\<close> ends in
      \<open>sys.exit(1)\<close>, the end of the input raises \<open>EOFError\<close>.\<close>
  "get_user_input required [] = (Inl EOFError, [])"
| "get_user_input required (CtrlC # rest) = (Inl SystemExit, rest)"
| "get_user_input required (Line l # rest) =
     (let entered = strip l
      in if entered \<noteq> [] \<or> \<not> required then (Inr entered, rest)
         else get_user_input required rest)"

function get_user_choice ::
  "pystr list \<Rightarrow> pystr \<Rightarrow> stdin_event list \<Rightarrow> (failure + pystr) \<times> stdin_event list" where
  \<comment> \<open>\<open>MessageHandler.get_user_choice(prompt, choices, default)\<close>; the empty string stands
      for \<open>default=None\<close>, which is as falsy.\<close>
  "get_user_choice choices dflt inp =
     (case get_user_input (dflt = []) inp of
        (Inl e, rest) \<Rightarrow> (Inl e, rest)
      | (Inr entered, rest) \<Rightarrow>
          (let response = lower entered
           in if response = [] \<and> dflt \<noteq> [] then (Inr (lower dflt), rest)
              else if response \<in> set (map lower choices) then (Inr response, rest)
              else get_user_choice choices dflt rest))"
  by pat_completeness auto
termination
proof (relation "measure (\<lambda>(choices, dflt, inp). length inp)", goal_cases)
  case 1
  show ?case by simp
next
  case (2 choices dflt inp x y b xa)
  have shrinks: "length rest < length i"
    if "get_user_input required i = (Inr v, rest)" for required i v rest
    using that by (induction required i rule: get_user_input.induct)
      (auto simp: Let_def split: if_splits)
  from 2 have "get_user_input (dflt = []) inp = (Inr b, y)"
    by (metis)
  then have "length y < length inp"
    by (rule shrinks)
  then show ?case
    by simp
qed

declare get_user_choice.simps [simp del]

section \<open>Setup, migration and the entry point\<close>

function setup_loop ::
  "stdin_event list \<Rightarrow> world \<Rightarrow> (failure + pystr) \<times> stdin_event list \<times> world" where
  \<comment> \<open>The \<open>while True\<close> loop of \<open>_setup_new_token\<close>\<close>
  "setup_loop inp w =
     (case get_user_input True inp of
        (Inl e, rest) \<Rightarrow> (Inl e, rest, w)
      | (Inr new_token, rest) \<Rightarrow>
          (if new_token = [] \<or> length new_token < 30 then setup_loop rest w
           else
             (case validate_token new_token 3 False w of
                (None, w1) \<Rightarrow> setup_loop rest w1
              | (Some user_info, w1) \<Rightarrow>
                  (case store_token_securely new_token w1 of
                     (True, w2) \<Rightarrow> (Inr new_token, rest, w2)
                   | (False, w2) \<Rightarrow> setup_loop rest w2))))"
  by pat_completeness auto
termination
proof -
  have shrinks: "length rest < length i"
    if "(Inr v, rest) = get_user_input required i" for required i v rest
    using that by (induction required i rule: get_user_input.induct)
      (auto simp: Let_def split: if_splits)
  show ?thesis
    by (relation "measure (\<lambda>(inp, w). length inp)") (auto dest: shrinks)
qed

declare setup_loop.simps [simp del]

definition setup_new_token ::
  "stdin_event list \<Rightarrow> world \<Rightarrow> (failure + pystr) \<times> stdin_event list \<times> world" where
  \<comment> \<open>\<open>SecureTokenManager._setup_new_token\<close>; opening the browser changes nothing the
      model holds.\<close>
  "setup_new_token inp w =
     (case get_user_choice [''y'', ''n''] ''y'' inp of
        (Inl e, rest) \<Rightarrow> (Inl e, rest, w)
      | (Inr choice, rest) \<Rightarrow>
          (if choice \<notin> set [''y'', ''yes''] then (Inl ValueError, rest, w)
           else setup_loop rest w))"

fun first_valid_token :: "(pystr \<times> pystr) list \<Rightarrow> world \<Rightarrow> pystr option \<times> world" where
  \<comment> \<open>\<open>for _, token in legacy_tokens\<close> of \<open>_handle_migration\<close>: the first token that
      validates (\<open>break\<close>).\<close>
  "first_valid_token [] w = (None, w)"
| "first_valid_token ((path, token) # rest) w =
     (case validate_token token 3 False w of
        (Some user_info, w1) \<Rightarrow> (Some token, w1)
      | (None, w1) \<Rightarrow> first_valid_token rest w1)"

definition returned_setup ::
  "stdin_event list \<Rightarrow> world \<Rightarrow> (failure + pystr option) \<times> stdin_event list \<times> world" where
  \<comment> \<open>\<open>return self._setup_new_token()\<close> inside \<open>_handle_migration\<close>\<close>
  "returned_setup inp w =
     (case setup_new_token inp w of
        (Inl e, rest, w1) \<Rightarrow> (Inl e, rest, w1)
      | (Inr token, rest, w1) \<Rightarrow> (Inr (Some token), rest, w1))"

definition migration_body ::
  "(pystr \<times> pystr) list \<Rightarrow> stdin_event list \<Rightarrow> world
     \<Rightarrow> (failure + pystr option) \<times> stdin_event list \<times> world" where
  \<comment> \<open>The \<open>try\<close> body of \<open>_handle_migration\<close>\<close>
  "migration_body legacy_tokens inp w =
     (case get_user_choice [''y'', ''n''] ''y'' inp of
        (Inl e, rest) \<Rightarrow> (Inl e, rest, w)
      | (Inr choice, rest) \<Rightarrow>
          (if choice \<notin> set [''y'', ''yes''] then (Inr None, rest, w)
           else
             (case first_valid_token legacy_tokens w of
                (None, w1) \<Rightarrow> returned_setup rest w1
              | (Some selected_token, w1) \<Rightarrow>
                  (case store_token_securely selected_token w1 of
                     (True, w2) \<Rightarrow>
                       (let (cleaned_files, w3) = cleanup_legacy_tokens legacy_tokens w2
                        in (Inr (Some selected_token), rest, w3))
                   | (False, w2) \<Rightarrow> returned_setup rest w2))))"

definition handle_migration ::
  "(pystr \<times> pystr) list \<Rightarrow> stdin_event list \<Rightarrow> world
     \<Rightarrow> (failure + pystr option) \<times> stdin_event list \<times> world" where
  \<comment> \<open>\<open>SecureTokenManager._handle_migration\<close>: \<open>except Exception\<close> catches what the body
      raises, the \<open>ValueError\<close> of a declined setup included, and runs the setup again;
      \<open>SystemExit\<close> is no \<open>Exception\<close> and passes.\<close>
  "handle_migration legacy_tokens inp w =
     (case migration_body legacy_tokens inp w of
        (Inl e, rest, w1) \<Rightarrow>
          (if e = SystemExit then (Inl e, rest, w1) else returned_setup rest w1)
      | (Inr migrated, rest, w1) \<Rightarrow> (Inr migrated, rest, w1))"



section \<open>Diagnostics\<close>

datatype finding = DnsFailed | HttpsFailed | NoToken | TooShort | FormatValid
  | UnusualFormat nat | NoPipes | TokenValid | TokenInvalid

definition segment_count :: "pystr \<Rightarrow> nat" where
  \<comment> \<open>\<open>len(test_token.split('|'))\<close>\<close>
  "segment_count t = length (filter (\<lambda>c. c = CHR ''|'') t) + 1"

definition format_finding :: "pystr \<Rightarrow> finding" where
  \<comment> \<open>The format check of test 3, which only prints: a success line for three segments,
      a warning otherwise.\<close>
  "format_finding t =
     (if CHR ''|'' \<in> set t
      then (if segment_count t = 3 then FormatValid else UnusualFormat (segment_count t))
      else NoPipes)"

definition pick_test_token :: "pystr option \<Rightarrow> world \<Rightarrow> pystr option \<times> world" where
  \<comment> \<open>\<open>test_token\<close> of test 3: the token given, or else the stored one.\<close>
  "pick_test_token token w =
     (case token of
        Some t \<Rightarrow> (if t \<noteq> [] then (Some t, w) else load_secure_token w)
      | None \<Rightarrow> load_secure_token w)"

definition diagnose_token :: "pystr option \<Rightarrow> world \<Rightarrow> (bool \<times> finding list) \<times> world" where
  \<comment> \<open>\<open>SecureTokenManager.diagnose_token\<close>, with the findings it prints about the token
      and the tests that fail.\<close>
  "diagnose_token token w =
     (if \<not> dns_ok w then ((False, [DnsFailed]), w)
      else if \<not> https_ok w then ((False, [HttpsFailed]), w)
      else
        (case pick_test_token token w of
           (None, w1) \<Rightarrow> ((False, [NoToken]), w1)
         | (Some t, w1) \<Rightarrow>
             (if t = [] then ((False, [NoToken]), w1)
              else if length t < 30 then ((False, [TooShort]), w1)
              else
                (case validate_token t 1 True w1 of
                   (Some user_info, w2) \<Rightarrow> ((True, [format_finding t, TokenValid]), w2)
                 | (None, w2) \<Rightarrow> ((False, [format_finding t, TokenInvalid]), w2)))))"

section \<open>Example machines\<close>

definition toy_crypto :: crypto_lib where
  \<comment> \<open>A stand-in for the library with Fernet's two contracts: the digest is the data,
      the derived key is the salt and the key material, and a ciphertext is the key's
      length in unary, a zero byte, the key and the data.\<close>
  "toy_crypto =
     \<lparr>sha256_digest = (\<lambda>data. data),
      pbkdf2_derive = (\<lambda>len salt iterations key_material. salt @ key_material),
      fernet_encrypt = (\<lambda>key nonce data.
         replicate (length key) (CHR 0x01) @ CHR 0x00 # key @ data),
      fernet_decrypt = (\<lambda>key data.
         (let header = replicate (length key) (CHR 0x01) @ CHR 0x00 # key
          in if take (length header) data = header
             then Some (drop (length header) data) else None))\<rparr>"

definition example_world :: world where
  \<comment> \<open>A machine with the \<open>cryptography\<close> package, no stored credential, no shell
      configuration file, and a service that knows no token.\<close>
  "example_world =
     \<lparr>CRYPTO_AVAILABLE = True, base64_bound = True, crypto = toy_crypto,
      fernet_nonce = ''n'', node = ''host-a'', user = ''alice'', home = ''/home/alice'',
      SHELL = ''/bin/bash'', now = ''2024-01-01T00:00:00+00:00'',
      config_file = None, config_writable = True, shell_files = Map.empty,
      shell_writable = (\<lambda>path. True),
      dns_ok = True, https_ok = True, client_has_request = False,
      api = (\<lambda>n token. Raises ''401 Unauthorized''),
      direct_api = (\<lambda>n token. DirectRaises ''401 Unauthorized''),
      events = []\<rparr>"

definition token40 :: pystr where
  "token40 = ''XXXXXXXXXXXXXXXXXXXXXXXXXXXXXXXXXXXXXXXX''"

definition accepting :: "pystr \<Rightarrow> nat \<Rightarrow> pystr \<Rightarrow> api_reply" where
  \<comment> \<open>A service that knows exactly one token.\<close>
  "accepting good n token =
     (if token = good then Returns (Some [(''id'', JStr ''u1''), (''name'', JStr ''Alice'')])
      else Raises ''401 Unauthorized'')"

definition legacy_world :: world where
  \<comment> \<open>The example machine with a legacy token in \<open>~/.bashrc\<close> that the service accepts,
      and a credential file that cannot be written.\<close>
  "legacy_world = example_world
     \<lparr>api := accepting token40, config_writable := False,
      shell_files := [''/home/alice/.bashrc'' \<mapsto>
        [SENTINEL @ [NEWLINE], EXPORT_PREFIX @ token40 @ [NEWLINE]]]\<rparr>"

definition token_two_parts :: pystr where
  "token_two_parts = ''XXXXXXXXXXXXXXXXXXXX|XXXXXXXXXXXXXXXXXXXX''"





section \<open>Properties\<close>

subsection \<open>Text primitives\<close>

lemma strip_no_space:
  assumes "s \<noteq> []" "\<not> py_isspace (hd s)" "\<not> py_isspace (last s)"
  shows "strip s = s"
proof -
  from assms obtain c cs where s: "s = c # cs" by (cases s) auto
  with assms have a: "dropWhile py_isspace s = s" by simp
  from assms have "rev s \<noteq> []" "\<not> py_isspace (hd (rev s))" by (simp_all add: hd_rev)
  then have "dropWhile py_isspace (rev s) = rev s" by (cases "rev s") auto
  with a show ?thesis by (simp add: strip_def)
qed

lemma extract_double_quoted:
  "extract_token_from_line (EXPORT_PREFIX @ [DQUOTE] @ t @ [DQUOTE])
     = (if 30 < length t then Some t else None)"
proof -
  have 1: "snd (split_once CHR ''='' (EXPORT_PREFIX @ [DQUOTE] @ t @ [DQUOTE]))
             = DQUOTE # t @ [DQUOTE]"
    by (simp add: split_once_def EXPORT_PREFIX_def)
  have 2: "strip (DQUOTE # t @ [DQUOTE]) = DQUOTE # t @ [DQUOTE]"
    by (rule strip_no_space) (simp_all add: py_isspace_def DQUOTE_def)
  have 3: "CHR ''='' \<in> set EXPORT_PREFIX"
    by (simp add: EXPORT_PREFIX_def)
  show ?thesis
    by (simp add: extract_token_from_line_def 1 2 3 startswith_def endswith_def
        slice_1_m1_def butlast_append Let_def del: append.simps)
qed

subsection \<open>Legacy extraction (C7)\<close>

text \<open>
  C7. The claim: a sentinel line followed by an export line whose value is a token of at
  least 30 characters yields exactly that token. \<open>_extract_token_from_line\<close> keeps a
  token only when \<open>len(token) > 30\<close>, while \<open>_validate_token\<close>, \<open>_setup_new_token\<close> and
  \<open>diagnose_token\<close> all treat 30 characters as long enough (\<open>len(token) < 30\<close> is "too
  short"). A file with the sentinel and a double-quoted token of exactly 30 characters
  yields no legacy token.
\<close>

theorem legacy_token_of_30_chars_not_extracted:
  "detect_legacy_tokens
     (example_world\<lparr>shell_files :=
        [''/home/alice/.bashrc'' \<mapsto>
           [SENTINEL @ [NEWLINE],
            EXPORT_PREFIX @ [DQUOTE] @ ''aaaaaaaaaaaaaaaaaaaaaaaaaaaaaa'' @ [DQUOTE, NEWLINE]]]\<rparr>)
   = []"
  by code_simp

lemma legacy_token_of_31_chars_extracted:
  "detect_legacy_tokens
     (example_world\<lparr>shell_files :=
        [''/home/alice/.bashrc'' \<mapsto>
           [SENTINEL @ [NEWLINE],
            EXPORT_PREFIX @ [DQUOTE] @ ''aaaaaaaaaaaaaaaaaaaaaaaaaaaaaaa'' @ [DQUOTE, NEWLINE]]]\<rparr>)
   = [(''/home/alice/.bashrc'', ''aaaaaaaaaaaaaaaaaaaaaaaaaaaaaaa'')]"
  by code_simp

subsection \<open>Cleanup of the shell configuration files (C5)\<close>

lemma cleanup_loop_kept: "cleanup_loop lines i acc = acc @ kept_lines (drop i lines)"
proof (induction lines i acc rule: cleanup_loop.induct)
  case (1 lines i new_lines)
  show ?case
  proof (cases "i < length lines")
    case False
    then show ?thesis by (simp add: cleanup_loop.simps [of lines i new_lines])
  next
    case True
    then have d: "drop i lines = lines ! i # drop (Suc i) lines"
      by (simp add: Cons_nth_drop_Suc)
    show ?thesis
    proof (cases "strip (lines ! i) = SENTINEL")
      case s: True
      show ?thesis
      proof (cases "i + 1 < length lines \<and> startswith (strip (lines ! (i + 1))) EXPORT_PREFIX")
        case e: True
        then have d2: "drop (Suc i) lines = lines ! Suc i # drop (Suc (Suc i)) lines"
          by (simp add: Cons_nth_drop_Suc)
        from 1(1) [OF True s e] True s e show ?thesis
          by (simp add: cleanup_loop.simps [of lines i new_lines] d d2)
      next
        case e: False
        have "kept_lines (drop i lines) = kept_lines (drop (Suc i) lines)"
        proof (cases "Suc i < length lines")
          case True
          then have d2: "drop (Suc i) lines = lines ! Suc i # drop (Suc (Suc i)) lines"
            by (simp add: Cons_nth_drop_Suc)
          from e True s show ?thesis by (simp add: d d2)
        next
          case False
          with s show ?thesis by (simp add: d)
        qed
        with 1(2) [OF True s e] True s e show ?thesis
          by (auto simp add: cleanup_loop.simps [of lines i new_lines])
      qed
    next
      case s: False
      from 1(3) [OF True s] True s show ?thesis
        by (simp add: cleanup_loop.simps [of lines i new_lines] d)
    qed
  qed
qed

lemma rewritten_lines_kept: "rewritten_lines ls = kept_lines ls"
  by (simp add: rewritten_lines_def cleanup_loop_kept)

lemma kept_lines_no_sentinel: "kept_after_cleanup (kept_lines ls)"
  by (induction ls rule: kept_lines.induct)
    (auto simp: kept_after_cleanup_def split: list.splits)

lemma kept_lines_id: "kept_after_cleanup ls \<Longrightarrow> kept_lines ls = ls"
  by (induction ls) (auto simp: kept_after_cleanup_def)

lemma kept_lines_prefix:
  "kept_after_cleanup pre \<Longrightarrow> kept_lines (pre @ ls) = pre @ kept_lines ls"
  by (induction pre) (auto simp: kept_after_cleanup_def)

lemma kept_lines_idem: "kept_lines (kept_lines ls) = kept_lines ls"
  by (simp add: kept_lines_id kept_lines_no_sentinel)

text \<open>
  C5, as stated: the rewrite removes one sentinel pair, the first, and leaves every
  other line. The loop of \<open>_cleanup_legacy_tokens\<close> ("Remove CDP Runbooker token
  entries") drops every sentinel line it meets: a file with two pairs loses both.
\<close>

theorem cleanup_removes_second_pair_too:
  "shell_files (snd (cleanup_legacy_tokens [(''/home/alice/.bashrc'', token40)]
      (example_world\<lparr>shell_files :=
         [''/home/alice/.bashrc'' \<mapsto>
            [''alias ll=ls'' @ [NEWLINE],
             SENTINEL @ [NEWLINE], EXPORT_PREFIX @ token40 @ [NEWLINE],
             ''export PATH=/bin'' @ [NEWLINE],
             SENTINEL @ [NEWLINE], EXPORT_PREFIX @ ''old'' @ [NEWLINE]]]\<rparr>)))
     ''/home/alice/.bashrc''
   = Some [''alias ll=ls'' @ [NEWLINE], ''export PATH=/bin'' @ [NEWLINE]]
   \<and> Some [''alias ll=ls'' @ [NEWLINE], ''export PATH=/bin'' @ [NEWLINE]]
     \<noteq> Some [''alias ll=ls'' @ [NEWLINE], ''export PATH=/bin'' @ [NEWLINE],
             SENTINEL @ [NEWLINE], EXPORT_PREFIX @ ''old'' @ [NEWLINE]]"
  by (simp add: rewritten_lines_kept SENTINEL_def EXPORT_PREFIX_def
      NEWLINE_def strip_def py_isspace_def startswith_def token40_def example_world_def)

text \<open>
  C5, amended: for every path, what the cleanup leaves in the file is known exactly.
  A file named in the list of discovered legacy tokens that can be read and opened for
  writing is rewritten to \<open>kept_lines\<close> of its lines: every line whose stripped text is
  the sentinel comment is removed, each occurrence and not only the first, together
  with the line right after it when that line, stripped, starts with
  \<open>export QUIP_API_TOKEN=\<close> (a sentinel line followed by any other line, or by the end of
  the file, is removed alone); every other line is kept, unchanged and in order. Every
  other file, one not in the list or one that cannot be read or written, is left as
  it is. The lines are those of Python's text mode.
\<close>

theorem cleanup_rewrites_to_kept_lines:
  "shell_files (snd (cleanup_legacy_tokens legacy_tokens w)) p
     = (if p \<in> fst ` set legacy_tokens \<and> shell_writable w p
        then map_option kept_lines (shell_files w p)
        else shell_files w p)"
proof (induction legacy_tokens w rule: cleanup_legacy_tokens.induct)
  case (1 w)
  show ?case by simp
next
  case (2 path token rest w)
  show ?case
  proof (cases "shell_files w path")
    case None
    with 2(1) show ?thesis by (auto split: if_splits)
  next
    case (Some lines)
    show ?thesis
    proof (cases "shell_writable w path")
      case False
      with Some 2(2) show ?thesis by (auto split: if_splits)
    next
      case True
      have "shell_files (snd (cleanup_legacy_tokens ((path, token) # rest) w)) p
              = shell_files (snd (cleanup_legacy_tokens rest
                  (w\<lparr>shell_files := (shell_files w)(path \<mapsto> rewritten_lines lines)\<rparr>))) p"
        using Some True by (simp split: prod.splits)
      also have "\<dots> = (if p \<in> fst ` set rest \<and> shell_writable w p
          then map_option kept_lines (((shell_files w)(path \<mapsto> rewritten_lines lines)) p)
          else ((shell_files w)(path \<mapsto> rewritten_lines lines)) p)"
        using 2(3) [OF Some _ refl] True by simp
      finally show ?thesis
        using Some True by (auto simp: rewritten_lines_kept kept_lines_idem)
    qed
  qed
qed

theorem cleanup_rewrites_to_kept_lines_witness:
  "shell_files (snd (cleanup_legacy_tokens [(''/home/alice/.bashrc'', token40)]
      (example_world\<lparr>shell_files :=
         [''/home/alice/.bashrc'' \<mapsto>
            [''alias ll=ls'' @ [NEWLINE],
             SENTINEL @ [NEWLINE], EXPORT_PREFIX @ token40 @ [NEWLINE],
             ''export PATH=/bin'' @ [NEWLINE],
             SENTINEL @ [NEWLINE], ''export EDITOR=vi'' @ [NEWLINE]],
          ''/home/alice/.profile'' \<mapsto> [SENTINEL @ [NEWLINE]]]\<rparr>)))
   = [''/home/alice/.bashrc'' \<mapsto>
        [''alias ll=ls'' @ [NEWLINE], ''export PATH=/bin'' @ [NEWLINE],
         ''export EDITOR=vi'' @ [NEWLINE]],
      ''/home/alice/.profile'' \<mapsto> [SENTINEL @ [NEWLINE]]]"
proof
  fix p
  let ?w = "example_world\<lparr>shell_files :=
         [''/home/alice/.bashrc'' \<mapsto>
            [''alias ll=ls'' @ [NEWLINE],
             SENTINEL @ [NEWLINE], EXPORT_PREFIX @ token40 @ [NEWLINE],
             ''export PATH=/bin'' @ [NEWLINE],
             SENTINEL @ [NEWLINE], ''export EDITOR=vi'' @ [NEWLINE]],
          ''/home/alice/.profile'' \<mapsto> [SENTINEL @ [NEWLINE]]]\<rparr>"
  have k: "kept_lines [''alias ll=ls'' @ [NEWLINE],
             SENTINEL @ [NEWLINE], EXPORT_PREFIX @ token40 @ [NEWLINE],
             ''export PATH=/bin'' @ [NEWLINE],
             SENTINEL @ [NEWLINE], ''export EDITOR=vi'' @ [NEWLINE]]
           = [''alias ll=ls'' @ [NEWLINE], ''export PATH=/bin'' @ [NEWLINE],
              ''export EDITOR=vi'' @ [NEWLINE]]"
    by (simp add: SENTINEL_def EXPORT_PREFIX_def NEWLINE_def strip_def py_isspace_def
        startswith_def token40_def)
  have w: "shell_writable ?w = (\<lambda>path. True)"
    by (simp add: example_world_def)
  show "shell_files (snd (cleanup_legacy_tokens [(''/home/alice/.bashrc'', token40)] ?w)) p
      = [''/home/alice/.bashrc'' \<mapsto>
          [''alias ll=ls'' @ [NEWLINE], ''export PATH=/bin'' @ [NEWLINE],
           ''export EDITOR=vi'' @ [NEWLINE]],
         ''/home/alice/.profile'' \<mapsto> [SENTINEL @ [NEWLINE]]] p"
    unfolding cleanup_rewrites_to_kept_lines [of "[(''/home/alice/.bashrc'', token40)]" ?w p] w
    using k by simp
qed

subsection \<open>What validation changes\<close>

lemma validate_attempt_frame:
  "snd (validate_attempt token d w)\<lparr>events := events w\<rparr> = w"
  by (auto simp: validate_attempt_def Let_def split: direct_reply.splits api_reply.splits option.splits prod.splits if_splits)

lemma validate_loop_frame:
  "snd (validate_loop token m d a w)\<lparr>events := events w\<rparr> = w"
proof (induction "m - a" arbitrary: a w)
  case 0
  then show ?case by (simp add: validate_loop.simps [of token m d a w])
next
  case (Suc n)
  obtain r w1 where va: "validate_attempt token d w = (r, w1)"
    by (cases "validate_attempt token d w")
  with validate_attempt_frame [where token=token and d=d and w=w] have w1: "w1\<lparr>events := events w\<rparr> = w"
    by simp
  from Suc(2) have lt: "a < m" by simp
  have step: "snd (validate_loop token m d (a + 1) w')\<lparr>events := events w'\<rparr> = w'" for w'
    using Suc(1) [of "a + 1" w'] Suc(2) by simp
  have next_pass: "snd (validate_loop token m d (a + 1) (w1\<lparr>events := evs\<rparr>))
            \<lparr>events := events w\<rparr> = w" for evs
    using arg_cong [OF step [of "w1\<lparr>events := evs\<rparr>"], of "\<lambda>x. x\<lparr>events := events w\<rparr>"] w1
    by simp
  show ?case
  proof (cases r)
    case (Success ui)
    with lt va w1 show ?thesis
      by (simp add: validate_loop.simps [of token m d a w])
  next
    case Rejected
    with lt va w1 show ?thesis
      by (simp add: validate_loop.simps [of token m d a w])
  next
    case (Raised e)
    with lt va w1 next_pass show ?thesis
      by (simp add: validate_loop.simps [of token m d a w] Let_def)
  qed
qed

lemma validate_token_frame:
  "snd (validate_token token m d w)\<lparr>events := events w\<rparr> = w"
  by (simp add: validate_token_def validate_loop_frame)

lemma validate_token_config [simp]:
  "config_file (snd (validate_token token m d w)) = config_file w"
  using arg_cong [OF validate_token_frame [where token=token and m=m and d=d and w=w], of config_file] by simp

lemma validate_token_shell [simp]:
  "shell_files (snd (validate_token token m d w)) = shell_files w"
  using arg_cong [OF validate_token_frame [where token=token and m=m and d=d and w=w], of shell_files] by simp

subsection \<open>Retries on transient errors (C6)\<close>

lemma transient_loop:
  assumes "\<forall>n. \<exists>e. api w n token = Raises e \<and> is_transient (lower e)"
  shows "validate_loop token m False a w
           = (None, w\<lparr>events := events w @ retry_trace token a m\<rparr>)"
  using assms
proof (induction "m - a" arbitrary: a w)
  case 0
  then show ?case
    by (simp add: validate_loop.simps [of token m False a w] retry_trace_def)
next
  case (Suc n)
  from Suc(2) have lt: "a < m" by simp
  from Suc(3) obtain e where e: "api w (length (events w)) token = Raises e"
      and tr: "is_transient (lower e)"
    by blast
  let ?w1 = "w\<lparr>events := events w @ [ApiCall token]\<rparr>"
  have va: "validate_attempt token False w = (Raised e, ?w1)"
    by (simp add: validate_attempt_def e)
  show ?case
  proof (cases "a < m - 1")
    case False
    with lt have "a + 1 = m" by simp
    with lt va tr False show ?thesis
      by (simp add: validate_loop.simps [of token m False a w] retry_trace_def)
  next
    case True
    let ?w2 = "?w1\<lparr>events := events ?w1 @ [Sleep ((a + 1) * 2)]\<rparr>"
    have api2: "\<forall>n. \<exists>e. api ?w2 n token = Raises e \<and> is_transient (lower e)"
      using Suc(3) by simp
    have "n = m - (a + 1)" using Suc(2) by simp
    from Suc(1) [OF this api2]
    have ih: "validate_loop token m False (a + 1) ?w2
                = (None, ?w2\<lparr>events := events ?w2 @ retry_trace token (a + 1) m\<rparr>)" .
    have rt: "retry_trace token a m
                = [ApiCall token, Sleep ((a + 1) * 2)] @ retry_trace token (a + 1) m"
      using True lt by (simp add: retry_trace_def upt_conv_Cons)
    from lt va tr True ih show ?thesis
      by (simp add: validate_loop.simps [of token m False a w] rt)
  qed
qed

text \<open>
  C6. For a token of at least 30 characters, when every request fails with an error
  whose lower-cased message holds one of the transient keywords, \<open>_validate_token\<close>
  returns \<open>None\<close>; its trace is \<open>max_retries\<close> requests, and between consecutive
  requests a sleep of twice the number (counted from 1) of the attempt that failed:
  2, 4, ... seconds.
\<close>

theorem transient_errors_exhaust_retries:
  assumes "30 \<le> length token"
    and "\<forall>n. \<exists>e. api w n token = Raises e \<and> is_transient (lower e)"
  shows "validate_token token max_retries False w
           = (None, w\<lparr>events := events w @ retry_trace token 0 max_retries\<rparr>)
       \<and> length (filter (\<lambda>ev. ev = ApiCall token) (retry_trace token 0 max_retries))
           = max_retries
       \<and> [n. Sleep n \<leftarrow> retry_trace token 0 max_retries]
           = map (\<lambda>attempt_index. attempt_index * 2) [1..<max_retries]"
proof -
  from assms(1) have "token \<noteq> []" "\<not> length token < 30" by auto
  then have 1: "validate_token token max_retries False w
           = (None, w\<lparr>events := events w @ retry_trace token 0 max_retries\<rparr>)"
    using transient_loop [OF assms(2)] by (simp add: validate_token_def)
  have 2: "length (filter (\<lambda>ev. ev = ApiCall token) (retry_trace token a m)) = m - a" for a m
  proof (induction "m - a" arbitrary: a)
    case 0
    then show ?case by (simp add: retry_trace_def)
  next
    case (Suc n)
    then have "a < m" by simp
    show ?case
    proof (cases "a + 1 < m")
      case True
      then have "retry_trace token a m
                = [ApiCall token, Sleep (2 * (a + 1))] @ retry_trace token (a + 1) m"
        by (simp add: retry_trace_def upt_conv_Cons)
      with Suc(1) [of "a + 1"] Suc(2) show ?thesis by simp
    next
      case False
      with \<open>a < m\<close> show ?thesis by (simp add: retry_trace_def)
    qed
  qed
  have 3: "[n. Sleep n \<leftarrow> retry_trace token a m] = map (\<lambda>k. k * 2) [a + 1..<m]" for a m
  proof (induction "m - a" arbitrary: a)
    case 0
    then show ?case by (simp add: retry_trace_def)
  next
    case (Suc n)
    then have "a < m" by simp
    show ?case
    proof (cases "a + 1 < m")
      case True
      then have "retry_trace token a m
                = [ApiCall token, Sleep (2 * (a + 1))] @ retry_trace token (a + 1) m"
        by (simp add: retry_trace_def upt_conv_Cons)
      with Suc(1) [of "a + 1"] Suc(2) True show ?thesis by (simp add: upt_conv_Cons)
    next
      case False
      with \<open>a < m\<close> show ?thesis by (simp add: retry_trace_def)
    qed
  qed
  from 1 2 [of 0 max_retries] 3 [of 0 max_retries] show ?thesis by simp
qed

theorem transient_errors_exhaust_retries_witness:
  "validate_token token40 3 False (example_world\<lparr>api := (\<lambda>n t. Raises ''Connection timeout'')\<rparr>)
     = (None, example_world\<lparr>api := (\<lambda>n t. Raises ''Connection timeout''),
          events := [ApiCall token40, Sleep 2, ApiCall token40, Sleep 4, ApiCall token40]\<rparr>)"
proof -
  let ?w = "example_world\<lparr>api := (\<lambda>n t. Raises ''Connection timeout'')\<rparr>"
  have 1: "30 \<le> length token40"
    by (simp add: token40_def)
  have "is_transient (lower ''Connection timeout'')"
    by code_simp
  then have 2: "\<forall>n. \<exists>e. api ?w n token40 = Raises e \<and> is_transient (lower e)"
    by simp
  have 3: "retry_trace token40 0 3
             = [ApiCall token40, Sleep 2, ApiCall token40, Sleep 4, ApiCall token40]"
    by (simp add: retry_trace_def upt_conv_Cons)
  have 4: "events ?w = []"
    by (simp add: example_world_def)
  from transient_errors_exhaust_retries [OF 1 2, of 3] show ?thesis
    by (simp add: 3 4)
qed

subsection \<open>Storing validates first (C10)\<close>

text \<open>
  C10. When the remote validation of a token fails, \<open>store_token_securely\<close> returns
  \<open>False\<close> and the credential file is what it was: the validation is the first
  statement of the method, before the encryption and the write.
\<close>

theorem invalid_token_is_not_stored:
  assumes "fst (validate_token token 3 False w) = None"
  shows "fst (store_token_securely token w) = False
       \<and> config_file (snd (store_token_securely token w)) = config_file w"
proof -
  obtain w1 where v: "validate_token token 3 False w = (None, w1)"
    using assms by (cases "validate_token token 3 False w") auto
  then have "store_token_securely token w = (False, w1)"
    by (simp add: store_token_securely_def)
  moreover from v validate_token_config [of token 3 False w] have "config_file w1 = config_file w"
    by simp
  ultimately show ?thesis by simp
qed

lemma rejected_token40: "fst (validate_token token40 3 False example_world) = None"
  by (simp add: validate_token_def validate_loop.simps validate_attempt_def example_world_def token40_def
       is_transient_def is_auth_error_def TRANSIENT_KEYWORDS_def AUTH_KEYWORDS_def lower_def py_lower_char_def startswith_def Let_def)

theorem invalid_token_is_not_stored_witness:
  "fst (store_token_securely token40 example_world) = False
     \<and> config_file (snd (store_token_securely token40 example_world)) = config_file example_world"
  using invalid_token_is_not_stored [OF rejected_token40] .

subsection \<open>The shell configuration files are written by the cleanup only\<close>

lemma store_shell [simp]:
  "shell_files (snd (store_token_securely token w)) = shell_files w"
proof -
  obtain r w1 where v: "validate_token token 3 False w = (r, w1)"
    by (cases "validate_token token 3 False w")
  with validate_token_shell [of token 3 False w] have "shell_files w1 = shell_files w" by simp
  with v show ?thesis
    by (auto simp: store_token_securely_def Let_def split: option.splits sum.splits)
qed

lemma setup_loop_shell [simp]:
  "shell_files (snd (snd (setup_loop inp w))) = shell_files w"
proof (induction inp w rule: setup_loop.induct)
  case (1 inp w)
  obtain r rest where g: "get_user_input True inp = (r, rest)"
    by (cases "get_user_input True inp")
  show ?case
  proof (cases r)
    case (Inl e)
    with g show ?thesis by (simp add: setup_loop.simps [of inp w])
  next
    case (Inr new_token)
    show ?thesis
    proof (cases "new_token = [] \<or> length new_token < 30")
      case True
      with 1(1) [OF g [symmetric] Inr True] g Inr show ?thesis
        by (simp add: setup_loop.simps [of inp w])
    next
      case False
      obtain v w1 where v: "validate_token new_token 3 False w = (v, w1)"
        by (cases "validate_token new_token 3 False w")
      with validate_token_shell [of new_token 3 False w] have s1: "shell_files w1 = shell_files w"
        by simp
      show ?thesis
      proof (cases v)
        case None
        with 1(2) [OF g [symmetric] Inr False v [symmetric] None] g Inr False v s1 show ?thesis
          by (simp add: setup_loop.simps [of inp w])
      next
        case (Some ui)
        obtain ok w2 where st: "store_token_securely new_token w1 = (ok, w2)"
          by (cases "store_token_securely new_token w1")
        with store_shell [of new_token w1] s1 have s2: "shell_files w2 = shell_files w"
          by simp
        show ?thesis
        proof (cases ok)
          case True
          with g Inr False v Some st s2 show ?thesis
            by (simp add: setup_loop.simps [of inp w])
        next
          case f: False
          then have f': "ok = False" by simp
          with 1(3) [OF g [symmetric] Inr False v [symmetric] Some st [symmetric] f'] g Inr False v Some st s2
          show ?thesis
            by (simp add: setup_loop.simps [of inp w])
        qed
      qed
    qed
  qed
qed

lemma setup_new_token_shell [simp]:
  "shell_files (snd (snd (setup_new_token inp w))) = shell_files w"
  by (auto simp: setup_new_token_def split: prod.splits sum.splits)

lemma returned_setup_shell [simp]:
  "shell_files (snd (snd (returned_setup inp w))) = shell_files w"
proof -
  obtain r rest w1 where s: "setup_new_token inp w = (r, rest, w1)"
    by (cases "setup_new_token inp w")
  with setup_new_token_shell [of inp w] have "shell_files w1 = shell_files w" by simp
  with s show ?thesis by (cases r) (simp_all add: returned_setup_def)
qed

lemma first_valid_token_shell [simp]:
  "shell_files (snd (first_valid_token legacy_tokens w)) = shell_files w"
proof (induction legacy_tokens w rule: first_valid_token.induct)
  case (1 w)
  show ?case by simp
next
  case (2 path token rest w)
  obtain v w1 where v: "validate_token token 3 False w = (v, w1)"
    by (cases "validate_token token 3 False w")
  with validate_token_shell [of token 3 False w] have s1: "shell_files w1 = shell_files w"
    by simp
  show ?case
  proof (cases v)
    case None
    with 2 [OF v [symmetric] None] v s1 show ?thesis by simp
  next
    case (Some ui)
    with v s1 show ?thesis by simp
  qed
qed

subsection \<open>Migration safety (C4)\<close>

text \<open>
  C4. For every list of discovered legacy tokens, every input of the user and every
  state of the machine: if storing the selected legacy token fails (whenever the
  migration selects a token, \<open>store_token_securely\<close> returns \<open>False\<close> for it), the
  migration flow, the setup it falls back to included, leaves every shell
  configuration file as it was.
\<close>

theorem failed_store_leaves_shell_files:
  assumes "\<forall>selected_token w1. first_valid_token legacy_tokens w = (Some selected_token, w1)
             \<longrightarrow> fst (store_token_securely selected_token w1) = False"
  shows "shell_files (snd (snd (handle_migration legacy_tokens inp w))) = shell_files w"
proof -
  have body: "shell_files (snd (snd (migration_body legacy_tokens inp w))) = shell_files w"
  proof -
    obtain c rest where g: "get_user_choice [''y'', ''n''] ''y'' inp = (c, rest)"
      by (cases "get_user_choice [''y'', ''n''] ''y'' inp")
    show ?thesis
    proof (cases c)
      case (Inl e)
      with g show ?thesis by (simp add: migration_body_def)
    next
      case (Inr choice)
      show ?thesis
      proof (cases "choice \<in> set [''y'', ''yes'']")
        case False
        with g Inr show ?thesis by (simp add: migration_body_def)
      next
        case True
        obtain sel w1 where f: "first_valid_token legacy_tokens w = (sel, w1)"
          by (cases "first_valid_token legacy_tokens w")
        with first_valid_token_shell [of legacy_tokens w] have s1: "shell_files w1 = shell_files w"
          by simp
        show ?thesis
        proof (cases sel)
          case None
          with g Inr True f s1 returned_setup_shell [of rest w1] show ?thesis
            by (simp add: migration_body_def)
        next
          case (Some selected_token)
          with assms f have "fst (store_token_securely selected_token w1) = False"
            by simp
          then obtain w2 where st: "store_token_securely selected_token w1 = (False, w2)"
            by (cases "store_token_securely selected_token w1") auto
          with store_shell [of selected_token w1] s1 have "shell_files w2 = shell_files w"
            by simp
          with g Inr True f Some st returned_setup_shell [of rest w2] show ?thesis
            by (simp add: migration_body_def)
        qed
      qed
    qed
  qed
  obtain r rest w1 where m: "migration_body legacy_tokens inp w = (r, rest, w1)"
    by (cases "migration_body legacy_tokens inp w")
  with body have "shell_files w1 = shell_files w" by simp
  with m returned_setup_shell [of rest w1] show ?thesis
    by (cases r) (simp_all add: handle_migration_def)
qed

lemma validate_token_writable [simp]:
  "config_writable (snd (validate_token token m d w)) = config_writable w"
  using arg_cong [OF validate_token_frame [where token=token and m=m and d=d and w=w], of config_writable]
  by simp

lemma store_needs_writable:
  assumes "\<not> config_writable w"
  shows "fst (store_token_securely token w) = False"
proof -
  obtain r w1 where v: "validate_token token 3 False w = (r, w1)"
    by (cases "validate_token token 3 False w")
  with validate_token_writable [of token 3 False w] assms have "\<not> config_writable w1" by simp
  with v show ?thesis
    by (auto simp: store_token_securely_def Let_def split: option.splits sum.splits)
qed

lemma first_valid_token_writable [simp]:
  "config_writable (snd (first_valid_token legacy_tokens w)) = config_writable w"
proof (induction legacy_tokens w rule: first_valid_token.induct)
  case (1 w)
  show ?case by simp
next
  case (2 path token rest w)
  obtain v w1 where v: "validate_token token 3 False w = (v, w1)"
    by (cases "validate_token token 3 False w")
  with validate_token_writable [of token 3 False w] have s1: "config_writable w1 = config_writable w"
    by simp
  show ?case
  proof (cases v)
    case None
    with 2 [OF v [symmetric] None] v s1 show ?thesis by simp
  next
    case (Some ui)
    with v s1 show ?thesis by simp
  qed
qed

lemma legacy_world_selects:
  "fst (first_valid_token [(''/home/alice/.bashrc'', token40)] legacy_world) = Some token40"
  by code_simp

theorem failed_store_leaves_shell_files_witness:
  "fst (first_valid_token [(''/home/alice/.bashrc'', token40)] legacy_world) = Some token40
   \<and> shell_files (snd (snd (handle_migration [(''/home/alice/.bashrc'', token40)]
         [Line ''y'', Line ''n'', Line ''n''] legacy_world)))
     = shell_files legacy_world"
proof -
  have w: "\<not> config_writable legacy_world"
    by (simp add: legacy_world_def)
  have "\<forall>selected_token w1.
          first_valid_token [(''/home/alice/.bashrc'', token40)] legacy_world
            = (Some selected_token, w1)
          \<longrightarrow> fst (store_token_securely selected_token w1) = False"
  proof (intro allI impI)
    fix selected_token w1
    assume "first_valid_token [(''/home/alice/.bashrc'', token40)] legacy_world
              = (Some selected_token, w1)"
    with first_valid_token_writable [of "[(''/home/alice/.bashrc'', token40)]" legacy_world] w
    have "\<not> config_writable w1" by simp
    then show "fst (store_token_securely selected_token w1) = False"
      by (rule store_needs_writable)
  qed
  from failed_store_leaves_shell_files [OF this] legacy_world_selects show ?thesis
    by blast
qed

subsection \<open>Diagnostics (C9)\<close>

text \<open>
  C9, as stated: a failure of the segment count check makes \<open>diagnose\<close> return false.
  The format check of test 3 only prints (\<open>print_warning\<close>); a token of two segments
  that the service accepts is diagnosed as valid.
\<close>

theorem diagnose_passes_unusual_segment_count:
  "fst (diagnose_token (Some token_two_parts) (example_world\<lparr>api := accepting token_two_parts\<rparr>))
     = (True, [UnusualFormat 2, TokenValid])
   \<and> segment_count token_two_parts \<noteq> 3"
  by code_simp

lemma load_secure_token_events [simp]:
  "events (snd (load_secure_token w)) = events w"
  by (simp add: load_secure_token_def split: option.splits prod.splits)

lemma pick_test_token_events [simp]:
  "events (snd (pick_test_token token w)) = events w"
  by (simp add: pick_test_token_def split: option.splits)

text \<open>
  C9, amended: the whole result of \<open>diagnose\<close>, test by test. When the name does not
  resolve, the battery stops there: the result is false with the DNS finding, and
  neither the token, the store nor the API has been touched. When the name resolves
  and the HTTPS probe fails, it stops there in the same way. Otherwise the token under
  test is the one given or else the stored one, found without a request to the API; a
  missing or empty
  token stops the battery with false, and so does a token shorter than 30 characters.
  A token of 30 characters or more goes on to step 4 whatever its segment count: the
  count is only reported (valid format, a warning for an unusual number of segments,
  or a warning for no pipe at all), the flag returned is the result of the full
  validation, and the machine is left as that validation leaves it. So \<open>diagnose\<close>
  returns true exactly when both network tests pass, there is a token of at least 30
  characters, and step 4 returns an identity.
\<close>

theorem diagnose_short_circuits:
  "(\<not> dns_ok w \<longrightarrow> diagnose_token token w = ((False, [DnsFailed]), w))
   \<and> (dns_ok w \<and> \<not> https_ok w \<longrightarrow> diagnose_token token w = ((False, [HttpsFailed]), w))
   \<and> events (snd (pick_test_token token w)) = events w
   \<and> (dns_ok w \<and> https_ok w \<and>
        (fst (pick_test_token token w) = None \<or> fst (pick_test_token token w) = Some []) \<longrightarrow>
        diagnose_token token w = ((False, [NoToken]), snd (pick_test_token token w)))
   \<and> (\<forall>t. dns_ok w \<and> https_ok w \<and> fst (pick_test_token token w) = Some t \<and> t \<noteq> []
          \<and> length t < 30 \<longrightarrow>
        diagnose_token token w = ((False, [TooShort]), snd (pick_test_token token w)))
   \<and> (\<forall>t. dns_ok w \<and> https_ok w \<and> fst (pick_test_token token w) = Some t
          \<and> 30 \<le> length t \<longrightarrow>
        diagnose_token token w
          = ((fst (validate_token t 1 True (snd (pick_test_token token w))) \<noteq> None,
              [format_finding t,
               if fst (validate_token t 1 True (snd (pick_test_token token w))) \<noteq> None
               then TokenValid else TokenInvalid]),
             snd (validate_token t 1 True (snd (pick_test_token token w)))))
   \<and> fst (fst (diagnose_token token w))
        = (dns_ok w \<and> https_ok w \<and>
           (\<exists>t. fst (pick_test_token token w) = Some t \<and> 30 \<le> length t
              \<and> fst (validate_token t 1 True (snd (pick_test_token token w))) \<noteq> None))"
proof -
  obtain tt w1 where p: "pick_test_token token w = (tt, w1)"
    by (cases "pick_test_token token w")
  have 1: "\<not> dns_ok w \<longrightarrow> diagnose_token token w = ((False, [DnsFailed]), w)"
    by (simp add: diagnose_token_def)
  have 2: "dns_ok w \<and> \<not> https_ok w \<longrightarrow> diagnose_token token w = ((False, [HttpsFailed]), w)"
    by (simp add: diagnose_token_def)
  have 3: "events (snd (pick_test_token token w)) = events w"
    by simp
  have 4: "dns_ok w \<and> https_ok w \<and>
        (fst (pick_test_token token w) = None \<or> fst (pick_test_token token w) = Some []) \<longrightarrow>
        diagnose_token token w = ((False, [NoToken]), snd (pick_test_token token w))"
    using p by (auto simp: diagnose_token_def)
  have 5: "\<forall>t. dns_ok w \<and> https_ok w \<and> fst (pick_test_token token w) = Some t \<and> t \<noteq> []
          \<and> length t < 30 \<longrightarrow>
        diagnose_token token w = ((False, [TooShort]), snd (pick_test_token token w))"
    using p by (auto simp: diagnose_token_def)
  have 6: "\<forall>t. dns_ok w \<and> https_ok w \<and> fst (pick_test_token token w) = Some t
          \<and> 30 \<le> length t \<longrightarrow>
        diagnose_token token w
          = ((fst (validate_token t 1 True (snd (pick_test_token token w))) \<noteq> None,
              [format_finding t,
               if fst (validate_token t 1 True (snd (pick_test_token token w))) \<noteq> None
               then TokenValid else TokenInvalid]),
             snd (validate_token t 1 True (snd (pick_test_token token w))))"
    using p by (auto simp: diagnose_token_def split: prod.splits option.splits)
  have 7: "fst (fst (diagnose_token token w))
        = (dns_ok w \<and> https_ok w \<and>
           (\<exists>t. fst (pick_test_token token w) = Some t \<and> 30 \<le> length t
              \<and> fst (validate_token t 1 True (snd (pick_test_token token w))) \<noteq> None))"
    using p by (auto simp: diagnose_token_def split: prod.splits option.splits)
  from 1 2 3 4 5 6 7 show ?thesis
    by (intro conjI)
qed

theorem diagnose_short_circuits_witness:
  "diagnose_token (Some token40) (example_world\<lparr>dns_ok := False, api := accepting token40\<rparr>)
     = ((False, [DnsFailed]), example_world\<lparr>dns_ok := False, api := accepting token40\<rparr>)
   \<and> diagnose_token (Some token40) (example_world\<lparr>https_ok := False, api := accepting token40\<rparr>)
     = ((False, [HttpsFailed]), example_world\<lparr>https_ok := False, api := accepting token40\<rparr>)
   \<and> diagnose_token None example_world = ((False, [NoToken]), example_world)
   \<and> diagnose_token (Some ''0123456789|0123456789|0123456'') (example_world\<lparr>api :=
        accepting ''0123456789|0123456789|0123456''\<rparr>)
     = ((False, [TooShort]),
        example_world\<lparr>api := accepting ''0123456789|0123456789|0123456''\<rparr>)
   \<and> fst (diagnose_token (Some token40) (example_world\<lparr>api := accepting token40\<rparr>))
     = (True, [NoPipes, TokenValid])
   \<and> fst (diagnose_token (Some token40) example_world) = (False, [NoPipes, TokenInvalid])"
proof -
  let ?d = "example_world\<lparr>dns_ok := False, api := accepting token40\<rparr>"
  let ?h = "example_world\<lparr>https_ok := False, api := accepting token40\<rparr>"
  let ?s = "example_world\<lparr>api := accepting ''0123456789|0123456789|0123456''\<rparr>"
  let ?a = "example_world\<lparr>api := accepting token40\<rparr>"
  have d: "\<not> dns_ok ?d"
    by (simp add: example_world_def)
  have h: "dns_ok ?h \<and> \<not> https_ok ?h"
    by (simp add: example_world_def)
  have n: "dns_ok example_world \<and> https_ok example_world
      \<and> pick_test_token None example_world = (None, example_world)"
    by (simp add: example_world_def pick_test_token_def load_secure_token_def read_record_def)
  have s: "dns_ok ?s \<and> https_ok ?s
      \<and> pick_test_token (Some ''0123456789|0123456789|0123456'') ?s
          = (Some ''0123456789|0123456789|0123456'', ?s)"
    by (simp add: example_world_def pick_test_token_def)
  have a: "dns_ok ?a \<and> https_ok ?a \<and> pick_test_token (Some token40) ?a = (Some token40, ?a)
      \<and> 30 \<le> length token40"
    by (simp add: example_world_def pick_test_token_def token40_def)
  have v: "fst (validate_token token40 1 True ?a) \<noteq> None" "format_finding token40 = NoPipes"
    by code_simp+
  have r: "dns_ok example_world \<and> https_ok example_world
      \<and> pick_test_token (Some token40) example_world = (Some token40, example_world)
      \<and> 30 \<le> length token40"
    by (simp add: example_world_def pick_test_token_def token40_def)
  have u: "fst (validate_token token40 1 True example_world) = None"
    by code_simp
  from diagnose_short_circuits [where w="?d" and token="Some token40"] d
  have 1: "diagnose_token (Some token40) ?d = ((False, [DnsFailed]), ?d)"
    by blast
  from diagnose_short_circuits [where w="?h" and token="Some token40"] h
  have 2: "diagnose_token (Some token40) ?h = ((False, [HttpsFailed]), ?h)"
    by blast
  from diagnose_short_circuits [where w=example_world and token=None] n
  have 3: "diagnose_token None example_world = ((False, [NoToken]), example_world)"
    by simp
  from diagnose_short_circuits [where w="?s" and token="Some ''0123456789|0123456789|0123456''"] s
  have 4: "diagnose_token (Some ''0123456789|0123456789|0123456'') ?s = ((False, [TooShort]), ?s)"
    by simp
  from diagnose_short_circuits [where w="?a" and token="Some token40"] a v
  have 5: "fst (diagnose_token (Some token40) ?a) = (True, [NoPipes, TokenValid])"
    by simp
  from diagnose_short_circuits [where w=example_world and token="Some token40"] r u v(2)
  have 6: "fst (diagnose_token (Some token40) example_world) = (False, [NoPipes, TokenInvalid])"
    by simp
  from 1 2 3 4 5 6 show ?thesis
    by (intro conjI)
qed

subsection \<open>UTF-8 and base64 round trips\<close>

lemma index_in_nth:
  "distinct xs \<Longrightarrow> n < length xs \<Longrightarrow> index_in xs (xs ! n) = Some n"
proof (induction xs arbitrary: n)
  case Nil
  then show ?case by simp
next
  case (Cons x xs)
  show ?case
  proof (cases n)
    case 0
    then show ?thesis by simp
  next
    case (Suc k)
    with Cons.prems have "k < length xs" "xs ! k \<noteq> x" by auto
    with Cons.IH [of k] Cons.prems Suc show ?thesis by simp
  qed
qed

lemma b64_alphabet_facts:
  "distinct b64_alphabet" "length b64_alphabet = 64"
  "CHR ''+'' \<notin> set b64_alphabet" "CHR ''/'' \<notin> set b64_alphabet"
  "CHR ''='' \<notin> set b64_alphabet"
  by (simp_all add: b64_alphabet_def)

lemma b2a_in_alphabet: "n < 64 \<Longrightarrow> b2a n \<in> set b64_alphabet"
  by (simp add: b2a_def b64_alphabet_facts)

lemma a2b_b2a:
  assumes "n < 64"
  shows "a2b (b2a n) = Some n"
proof -
  from b2a_in_alphabet [OF assms] b64_alphabet_facts
  have "b2a n \<noteq> CHR ''+''" "b2a n \<noteq> CHR ''/''" by auto
  moreover have "index_in b64_alphabet (b2a n) = Some n"
    unfolding b2a_def by (rule index_in_nth) (simp_all add: b64_alphabet_facts assms)
  ultimately show ?thesis by (simp add: a2b_def)
qed

lemma b2a_not_pad: "n < 64 \<Longrightarrow> b2a n \<noteq> CHR ''=''"
  using b2a_in_alphabet [of n] b64_alphabet_facts by auto

lemma a2b_base64_data:
  assumes "n < 64"
  shows "a2b_base64 q l p (b2a n # cs) =
     (if q = 0 then a2b_base64 1 n 0 cs
      else if q = 1 then map_option ((#) (char_of (l * 4 + n div 16))) (a2b_base64 2 (n mod 16) 0 cs)
      else if q = 2 then map_option ((#) (char_of (l * 16 + n div 4))) (a2b_base64 3 (n mod 4) 0 cs)
      else map_option ((#) (char_of (l * 64 + n))) (a2b_base64 0 0 0 cs))"
  using a2b_b2a [OF assms] b2a_not_pad [OF assms] by simp

lemma sextets:
  fixes x y z :: nat
  assumes "x < 256" "y < 256" "z < 256"
  shows "x div 4 < 64" "x mod 4 * 16 + y div 16 < 64" "y mod 16 * 4 + z div 64 < 64"
    "z mod 64 < 64" "x mod 4 * 16 < 64" "y mod 16 * 4 < 64"
  using assms by auto

lemma octet1:
  fixes x y :: nat
  shows "y < 256 \<Longrightarrow> x div 4 * 4 + (x mod 4 * 16 + y div 16) div 16 = x"
  by (simp add: div_mult2_eq [symmetric])

lemma octet2:
  fixes x y z :: nat
  assumes "y < 256" "z < 256"
  shows "(x mod 4 * 16 + y div 16) mod 16 * 16 + (y mod 16 * 4 + z div 64) div 4 = y"
proof -
  from assms(1) have "y div 16 < 16" by simp
  then have "(x mod 4 * 16 + y div 16) mod 16 = y div 16" by simp
  moreover have "(y mod 16 * 4 + z div 64) div 4 = y mod 16"
    using assms(2) by (simp add: div_mult2_eq [symmetric])
  ultimately show ?thesis by simp
qed

lemma octet3:
  fixes y z :: nat
  assumes "z < 256"
  shows "(y mod 16 * 4 + z div 64) mod 4 * 64 + z mod 64 = z"
proof -
  from assms have "z div 64 < 4" by simp
  then have "(y mod 16 * 4 + z div 64) mod 4 = z div 64" by simp
  then show ?thesis by simp
qed

lemma octet1_last:
  fixes x :: nat
  shows "x div 4 * 4 + x mod 4 * 16 div 16 = x"
  by simp

lemma octet2_last:
  fixes x y :: nat
  assumes "y < 256"
  shows "(x mod 4 * 16 + y div 16) mod 16 * 16 + y mod 16 * 4 div 4 = y"
proof -
  from assms have "y div 16 < 16" by simp
  then have "(x mod 4 * 16 + y div 16) mod 16 = y div 16" by simp
  then show ?thesis by simp
qed

lemma normal_forms:
  fixes y z :: nat
  shows "y < 256 \<Longrightarrow> y div 16 div 16 = 0"
    and "y < 256 \<Longrightarrow> y div 16 mod 16 * 16 + y mod 16 = y"
    and "z < 256 \<Longrightarrow> z div 64 div 4 = 0"
    and "z < 256 \<Longrightarrow> z div 64 mod 4 * 64 + z mod 64 = z"
proof -
  show "y < 256 \<Longrightarrow> y div 16 div 16 = 0" by (simp add: div_mult2_eq [symmetric])
  show "z < 256 \<Longrightarrow> z div 64 div 4 = 0" by (simp add: div_mult2_eq [symmetric])
  { assume "y < 256"
    then have "y div 16 < 16" by simp
    then have "y div 16 mod 16 = y div 16" by simp
    then show "y div 16 mod 16 * 16 + y mod 16 = y" by simp }
  { assume "z < 256"
    then have "z div 64 < 4" by simp
    then have "z div 64 mod 4 = z div 64" by simp
    then show "z div 64 mod 4 * 64 + z mod 64 = z" by simp }
qed

lemma pad_ends:
  "a2b_base64 2 l 0 ''=='' = Some []" "a2b_base64 3 l 0 ''='' = Some []"
  by simp_all

lemma urlsafe_b64_round_trip: "a2b_base64 0 l p (urlsafe_b64encode bs) = Some bs"
proof (induction bs arbitrary: l p rule: urlsafe_b64encode.induct)
  case 1
  show ?case by simp
next
  case (2 a)
  have x: "(of_char a :: nat) < 256" by simp
  note s = sextets [OF x x x]
  show ?case
    by (simp add: a2b_base64_data s Let_def octet1_last pad_ends del: a2b_base64.simps(2))
next
  case (3 a b)
  have x: "(of_char a :: nat) < 256" and y: "(of_char b :: nat) < 256" by simp_all
  note s = sextets [OF x y y]
  show ?case
    by (simp add: a2b_base64_data s Let_def octet1 [OF y] octet2_last [OF y] pad_ends normal_forms(1,2) [OF y]
        del: a2b_base64.simps(2))
next
  case (4 a b c rest)
  have x: "(of_char a :: nat) < 256" and y: "(of_char b :: nat) < 256"
    and z: "(of_char c :: nat) < 256" by simp_all
  note s = sextets [OF x y z]
  show ?case
    by (simp add: a2b_base64_data s Let_def octet1 [OF y] octet2 [OF y z] octet3 [OF z] 4 normal_forms(1,2) [OF y] normal_forms(3,4) [OF z]
        del: a2b_base64.simps(2))
qed

lemma urlsafe_b64decode_encode [simp]: "urlsafe_b64decode (urlsafe_b64encode bs) = Some bs"
  by (simp add: urlsafe_b64decode_def urlsafe_b64_round_trip)


lemma utf8_decode_ascii_Cons:
  "(of_char c :: nat) < 128 \<Longrightarrow> utf8_decode (c # bs) = map_option ((#) c) (utf8_decode bs)"
  by (cases bs) simp_all

lemma second_block:
  fixes n :: nat
  assumes "128 \<le> n" "n < 256"
  shows "n div 64 = 2 \<or> n div 64 = 3"
  using assms by arith

lemma utf8_decode_two:
  fixes c :: char
  assumes "\<not> (of_char c :: nat) < 128"
  shows "utf8_decode (char_of (192 + (of_char c :: nat) div 64)
            # char_of (128 + (of_char c :: nat) mod 64) # bs)
         = map_option ((#) c) (utf8_decode bs)"
proof -
  let ?n = "of_char c :: nat"
  have n: "128 \<le> ?n" "?n < 256" using assms by simp_all
  then have d: "?n div 64 = 2 \<or> ?n div 64 = 3" by (rule second_block)
  then have lead: "(of_char (char_of (192 + ?n div 64) :: char) :: nat) = 192 + ?n div 64"
    by auto
  have m: "(of_char (char_of (128 + ?n mod 64) :: char) :: nat) = 128 + ?n mod 64"
    by simp
  have restored: "char_of ((192 + ?n div 64 - 192) * 64 + (128 + ?n mod 64 - 128)) = c"
    by simp
  from d show ?thesis
    unfolding utf8_decode.simps lead m Let_def restored by auto
qed

lemma utf8_round_trip [simp]: "utf8_decode (utf8_encode s) = Some s"
proof (induction s)
  case Nil
  show ?case by simp
next
  case (Cons c cs)
  show ?case
  proof (cases "(of_char c :: nat) < 128")
    case True
    with Cons show ?thesis by (simp add: utf8_decode_ascii_Cons)
  next
    case False
    with Cons utf8_decode_two [OF False, of "utf8_encode cs"] show ?thesis
      by (simp add: Let_def del: utf8_decode.simps)
  qed
qed

lemma utf8_decode_ascii:
  "list_all (\<lambda>c. (of_char c :: nat) < 128) bs \<Longrightarrow> utf8_decode bs = Some bs"
  by (induction bs) (simp_all add: utf8_decode_ascii_Cons)

lemma utf8_encode_ascii:
  "list_all (\<lambda>c. (of_char c :: nat) < 128) s \<Longrightarrow> utf8_encode s = s"
  by (induction s) simp_all

lemma b64_alphabet_ascii: "list_all (\<lambda>c. (of_char c :: nat) < 128) b64_alphabet"
  by (simp add: b64_alphabet_def)

lemma b2a_ascii: "n < 64 \<Longrightarrow> (of_char (b2a n) :: nat) < 128"
  using b64_alphabet_ascii b2a_in_alphabet [of n] by (simp add: list_all_iff)

lemma urlsafe_b64encode_ascii:
  "list_all (\<lambda>c. (of_char c :: nat) < 128) (urlsafe_b64encode bs)"
proof (induction bs rule: urlsafe_b64encode.induct)
  case 1
  show ?case by simp
next
  case (2 a)
  have x: "(of_char a :: nat) < 256" by simp
  from sextets [OF x x x] show ?case by (simp add: Let_def b2a_ascii)
next
  case (3 a b)
  have x: "(of_char a :: nat) < 256" and y: "(of_char b :: nat) < 256" by simp_all
  from sextets [OF x y y] show ?case by (simp add: Let_def b2a_ascii)
next
  case (4 a b c rest)
  have x: "(of_char a :: nat) < 256" and y: "(of_char b :: nat) < 256"
    and z: "(of_char c :: nat) < 256" by simp_all
  from sextets [OF x y z] 4 show ?case by (simp add: Let_def b2a_ascii)
qed

lemma b64_text [simp]:
  "utf8_decode (urlsafe_b64encode bs) = Some (urlsafe_b64encode bs)"
  "utf8_encode (urlsafe_b64encode bs) = urlsafe_b64encode bs"
  by (simp_all add: utf8_decode_ascii utf8_encode_ascii urlsafe_b64encode_ascii)


lemma key_needs_base64: "generate_encryption_key w = Inr k \<Longrightarrow> base64_bound w"
  by (auto simp: generate_encryption_key_def Let_def split: if_splits)

lemma toy_round_trip: "fernet_round_trip toy_crypto"
  by (simp add: fernet_round_trip_def toy_crypto_def Let_def)

lemma toy_key_bound: "fernet_key_bound toy_crypto"
proof -
  have "take (length (replicate (length k') (CHR 0x01) @ CHR 0x00 # k'))
          (replicate (length k) (CHR 0x01) @ CHR 0x00 # k @ d)
        \<noteq> replicate (length k') (CHR 0x01) @ CHR 0x00 # k'"
    if "k \<noteq> k'" for k k' d :: bytes
  proof
    let ?h' = "replicate (length k') (CHR 0x01) @ CHR 0x00 # k'"
    let ?c = "replicate (length k) (CHR 0x01) @ CHR 0x00 # k @ d"
    assume eq: "take (length ?h') ?c = ?h'"
    consider "length k' < length k" | "length k < length k'" | "length k = length k'"
      by linarith
    then show False
    proof cases
      case 1
      then have "take (length ?h') ?c ! length k' = CHR 0x01"
        by (simp add: nth_append)
      moreover have "?h' ! length k' = CHR 0x00"
        by (simp add: nth_append)
      ultimately show False using eq by simp
    next
      case 2
      have "length (take (length ?h') ?c) = length ?h'" using eq by simp
      then have len: "length ?h' \<le> length ?c" by simp
      from 2 have "take (length ?h') ?c ! length k = CHR 0x00"
        using len by (simp add: nth_append)
      moreover from 2 have "?h' ! length k = CHR 0x01"
        by (simp add: nth_append)
      ultimately show False using eq by simp
    next
      case 3
      with eq have "k = k'" by simp
      with that show False by simp
    qed
  qed
  then have r: "fernet_decrypt toy_crypto k' (fernet_encrypt toy_crypto k n d) = None"
    if "k \<noteq> k'" for k k' n d
    using that by (simp add: toy_crypto_def Let_def)
  show ?thesis
    unfolding fernet_key_bound_def
  proof (intro allI impI)
    fix key key' nonce data :: bytes
    assume "urlsafe_b64decode key \<noteq> urlsafe_b64decode key'"
    then have "key \<noteq> key'"
      by (rule contrapos_nn) (erule arg_cong)
    then show "fernet_decrypt toy_crypto key' (fernet_encrypt toy_crypto key nonce data) = None"
      by (rule r)
  qed
qed



lemma urlsafe_b64encode_inj: "urlsafe_b64encode x = urlsafe_b64encode y \<Longrightarrow> x = y"
  by (metis option.inject urlsafe_b64decode_encode)

lemma strong_key:
  assumes "CRYPTO_AVAILABLE w" and "base64_bound w"
  shows "generate_encryption_key w
     = Inr (urlsafe_b64encode (pbkdf2_derive (crypto w) 32
              (take 16 (sha256_digest (crypto w) (utf8_encode (machine_identifier w))))
              100000 (utf8_encode (machine_identifier w))))"
  using assms by (simp add: generate_encryption_key_def Let_def)

lemma example_flags:
  "CRYPTO_AVAILABLE example_world" "base64_bound example_world"
  "crypto example_world = toy_crypto"
  by (simp_all add: example_world_def)

lemma example_identifier:
  "machine_identifier example_world = ''host-a:alice:/home/alice:cdp-runbooker-v1''"
  "machine_identifier (example_world\<lparr>node := ''host-b''\<rparr>)
     = ''host-b:alice:/home/alice:cdp-runbooker-v1''"
  by (simp_all add: machine_identifier_def example_world_def)

lemma example_keys_differ:
  "generate_encryption_key example_world
     \<noteq> generate_encryption_key (example_world\<lparr>node := ''host-b''\<rparr>)"
proof -
  let ?w2 = "example_world\<lparr>node := ''host-b''\<rparr>"
  let ?a = "''host-a:alice:/home/alice:cdp-runbooker-v1''"
  let ?b = "''host-b:alice:/home/alice:cdp-runbooker-v1''"
  have a: "utf8_encode ?a = ?a"
    by (rule utf8_encode_ascii) simp
  have b: "utf8_encode ?b = ?b"
    by (rule utf8_encode_ascii) simp
  have f2: "CRYPTO_AVAILABLE ?w2" "base64_bound ?w2" "crypto ?w2 = toy_crypto"
    by (simp_all add: example_world_def)
  have k1: "generate_encryption_key example_world = Inr (urlsafe_b64encode (take 16 ?a @ ?a))"
    unfolding strong_key [OF example_flags(1,2)] example_flags(3) example_identifier a
    by (simp only: toy_crypto_def crypto_lib.simps)
  have k2: "generate_encryption_key ?w2 = Inr (urlsafe_b64encode (take 16 ?b @ ?b))"
    unfolding strong_key [OF f2(1,2)] f2(3) example_identifier b
    by (simp only: toy_crypto_def crypto_lib.simps)
  have "take 16 ?a @ ?a \<noteq> take 16 ?b @ ?b"
    by simp
  then have "urlsafe_b64encode (take 16 ?a @ ?a) \<noteq> urlsafe_b64encode (take 16 ?b @ ?b)"
    using urlsafe_b64encode_inj by blast
  then show ?thesis
    unfolding k1 k2 by (simp only: sum.inject not_False_eq_True)
qed

subsection \<open>Encrypt, then decrypt (C1)\<close>

text \<open>
  C1. For every token (of 30 characters or more, or fewer) and every key \<open>k\<close> that
  \<open>_generate_encryption_key\<close> derives on a machine, decrypting on that machine what
  \<open>_encrypt_token\<close> made of the token gives the token back. In the strong-cipher mode
  this rests on Fernet's contract that a token decrypts under the key that made it; a
  key is derived only where \<open>base64\<close> is bound.
\<close>

theorem encrypt_decrypt_round_trip:
  assumes "generate_encryption_key w = Inr k"
    and "CRYPTO_AVAILABLE w \<Longrightarrow> fernet_round_trip (crypto w)"
  shows "encrypt_then_decrypt t w w = Inr (Some t)"
proof -
  from assms(1) have b: "base64_bound w" by (rule key_needs_base64)
  show ?thesis
  proof (cases "CRYPTO_AVAILABLE w")
    case True
    with assms(2) have
      "fernet_decrypt (crypto w) k (fernet_encrypt (crypto w) k (fernet_nonce w) (utf8_encode t))
         = Some (utf8_encode t)"
      by (simp add: fernet_round_trip_def)
    with True b assms(1) show ?thesis
      by (simp add: encrypt_then_decrypt_def encrypt_token_def decrypt_token_def)
  next
    case False
    with b show ?thesis
      by (simp add: encrypt_then_decrypt_def encrypt_token_def decrypt_token_def)
  qed
qed

theorem encrypt_decrypt_round_trip_witness:
  "encrypt_then_decrypt token40 example_world example_world = Inr (Some token40)"
proof -
  from strong_key [OF example_flags(1,2)]
  obtain k where k: "generate_encryption_key example_world = Inr k"
    by blast
  have "fernet_round_trip (crypto example_world)"
    by (simp add: example_flags toy_round_trip)
  with encrypt_decrypt_round_trip [OF k] show ?thesis
    by blast
qed

subsection \<open>Decrypting under another key (C2)\<close>

text \<open>
  In the strong-cipher mode the property holds: for two machines with the same library
  whose derived keys differ, \<open>decrypt(encrypt(t, k1), k2)\<close> returns null, given Fernet's
  contract that a token made under one key is rejected under another. The keys of
  \<open>_generate_encryption_key\<close> are base64 text, so different keys decode to different
  octets.
\<close>

lemma foreign_key_rejected:
  assumes "CRYPTO_AVAILABLE w1" and "CRYPTO_AVAILABLE w2"
    and "generate_encryption_key w1 = Inr k1" and "generate_encryption_key w2 = Inr k2"
    and "k1 \<noteq> k2"
    and "crypto w2 = crypto w1" and "fernet_key_bound (crypto w1)"
  shows "encrypt_then_decrypt t w1 w2 = Inr None"
proof -
  from assms(3,4) have b: "base64_bound w1" "base64_bound w2"
    by (auto dest: key_needs_base64)
  from assms(3) strong_key [OF assms(1) b(1)]
  obtain x1 where x1: "k1 = urlsafe_b64encode x1"
    by auto
  from assms(4) strong_key [OF assms(2) b(2)]
  obtain x2 where x2: "k2 = urlsafe_b64encode x2"
    by auto
  from assms(5) have "x1 \<noteq> x2"
    unfolding x1 x2 by blast
  then have "urlsafe_b64decode k1 \<noteq> urlsafe_b64decode k2"
    unfolding x1 x2 by (simp only: urlsafe_b64decode_encode option.inject not_False_eq_True)
  with assms(7) have
    "fernet_decrypt (crypto w1) k2 (fernet_encrypt (crypto w1) k1 (fernet_nonce w1) (utf8_encode t))
       = None"
    by (simp add: fernet_key_bound_def)
  with assms b show ?thesis
    by (simp add: encrypt_then_decrypt_def encrypt_token_def decrypt_token_def)
qed

lemma foreign_key_rejected_example:
  "encrypt_then_decrypt token40 example_world (example_world\<lparr>node := ''host-b''\<rparr>) = Inr None"
proof -
  let ?w2 = "example_world\<lparr>node := ''host-b''\<rparr>"
  have c: "CRYPTO_AVAILABLE example_world" "CRYPTO_AVAILABLE ?w2"
    "crypto ?w2 = crypto example_world" "base64_bound ?w2"
    by (simp_all add: example_world_def)
  from strong_key [OF example_flags(1,2)]
  obtain k1 where k1: "generate_encryption_key example_world = Inr k1"
    by blast
  from strong_key [OF c(2) c(4)]
  obtain k2 where k2: "generate_encryption_key ?w2 = Inr k2"
    by blast
  from k1 k2 example_keys_differ have ne: "k1 \<noteq> k2"
    by auto
  have b: "fernet_key_bound (crypto example_world)"
    by (simp add: example_flags toy_key_bound)
  from foreign_key_rejected [OF c(1) c(2) k1 k2 ne c(3) b] show ?thesis .
qed

lemma failed_import_leaves_base64_unbound:
  "\<not> CRYPTO_AVAILABLE (import_module False w)" "\<not> base64_bound (import_module False w)"
  "encrypt_token t (import_module False w) = Inl NameError"
  "generate_encryption_key (import_module False w) = Inl NameError"
  by (simp_all add: import_module_def encrypt_token_def generate_encryption_key_def Let_def)

text \<open>
  C2 asks for the same in the fallback mode, the one used when the cryptographic
  library is unavailable: \<open>decrypt(encrypt(t, k1), k2)\<close> returns null and never raises.
  The module binds \<open>base64\<close> inside the \<open>try\<close> that imports \<open>cryptography\<close>, after those
  imports, so on a machine without the package the name is unbound and the fallback
  branch of \<open>_encrypt_token\<close>, which calls \<open>base64.urlsafe_b64encode\<close>, raises \<open>NameError\<close>
  to its caller. Two machines that differ in their host name, both without the
  package, and a token of forty characters:
\<close>

theorem fallback_encrypt_raises_name_error:
  "encrypt_then_decrypt token40 (import_module False example_world)
       (import_module False (example_world\<lparr>node := ''host-b''\<rparr>)) = Inl NameError
   \<and> machine_identifier (import_module False example_world)
       \<noteq> machine_identifier (import_module False (example_world\<lparr>node := ''host-b''\<rparr>))"
  by (simp add: encrypt_then_decrypt_def encrypt_token_def import_module_def
      machine_identifier_def example_world_def)

subsection \<open>Reading the stored record (C3)\<close>

lemma machine_identifier_updates [simp]:
  "machine_identifier (w\<lparr>events := e\<rparr>) = machine_identifier w"
  "machine_identifier (w\<lparr>config_file := f\<rparr>) = machine_identifier w"
  "machine_identifier (w\<lparr>api := a\<rparr>) = machine_identifier w"
  by (simp_all add: machine_identifier_def)

lemma generate_encryption_key_updates [simp]:
  "generate_encryption_key (w\<lparr>events := e\<rparr>) = generate_encryption_key w"
  "generate_encryption_key (w\<lparr>config_file := f\<rparr>) = generate_encryption_key w"
  "generate_encryption_key (w\<lparr>api := a\<rparr>) = generate_encryption_key w"
  by (simp_all add: generate_encryption_key_def Let_def cong: if_cong)

lemma decrypt_token_updates [simp]:
  "decrypt_token c (w\<lparr>events := e\<rparr>) = decrypt_token c w"
  "decrypt_token c (w\<lparr>config_file := f\<rparr>) = decrypt_token c w"
  "decrypt_token c (w\<lparr>api := a\<rparr>) = decrypt_token c w"
  by (simp_all add: decrypt_token_def cong: if_cong sum.case_cong option.case_cong)

lemma read_record_updates [simp]:
  "read_record (w\<lparr>events := e\<rparr>) = read_record w"
  "read_record (w\<lparr>api := a\<rparr>) = read_record w"
  by (simp_all add: read_record_def)















subsection \<open>Declining the setup (C8)\<close>












text \<open>
  Inside \<open>_handle_migration\<close> a declined setup does not end the call: the \<open>ValueError\<close> is
  caught by \<open>except Exception\<close>, and the setup is offered again.
\<close>

lemma decline_inside_migration_is_caught:
  "migration_body legacy_tokens inp w = (Inl ValueError, rest, w1)
     \<Longrightarrow> handle_migration legacy_tokens inp w = returned_setup rest w1"
  by (simp add: handle_migration_def)




end
